theory Spec2Isabelle
  imports Main "HOL-Library.Sublist"
begin

section \<open>The script and the world it runs in\<close>

text \<open>
  The script \<^verbatim>\<open>main.ts\<close> drives a browser through an automation library, reads and
  writes one cookie file, and polls with timers. Nothing of the browser, the disk or the
  clock is code of the script, so the model runs the script against an arbitrary
  environment: an oracle \<open>env\<close> that says, for the \<open>k\<close>-th call the script makes to the
  outside, whether the call rejects, how long it takes and what it returns. The script's
  own state is a \<open>world\<close>: the clock, the disk, and the trace of the calls made so far, each
  with its outcome. Every function of the script is a state-passing function on worlds
  whose result is either an error (a thrown exception or a rejected promise) or a value.
  Console output is left out.
\<close>

subsection \<open>Values\<close>

text \<open>
  Values of type \<^verbatim>\<open>any\<close> that the script handles are what \<^verbatim>\<open>JSON.parse\<close> returns and
  what the browser hands over as cookies. Numbers are restricted to integers. Strings are
  lists of code units below 256.
\<close>

datatype json =
    JNull
  | JBool bool
  | JNum int
  | JStr string
  | JArr "json list"
  | JObj "(string \<times> json) list"

text \<open>The element of the list \<open>actions\<close> that \<^verbatim>\<open>page.observe\<close> resolves to.\<close>

record action =
  description :: string
  selector :: string

text \<open>The object returned by \<open>extractCode\<close>: file name to file content.\<close>

type_synonym code_files = "(string \<times> string) list"

subsection \<open>Calls to the outside, errors, environment\<close>

datatype call =
    ReadFile string                     \<comment> \<open>\<^verbatim>\<open>fs.readFile(path, 'utf-8')\<close>\<close>
  | WriteFile string string             \<comment> \<open>\<^verbatim>\<open>fs.writeFile(path, data)\<close>\<close>
  | Goto string                         \<comment> \<open>\<^verbatim>\<open>page.goto(url)\<close>\<close>
  | Observe string                      \<comment> \<open>\<^verbatim>\<open>page.observe({instruction})\<close>\<close>
  | Act string "(string \<times> string) list"   \<comment> \<open>\<^verbatim>\<open>page.act({action, variables})\<close>\<close>
  | LocatorClick string                 \<comment> \<open>\<^verbatim>\<open>page.locator(sel).click()\<close>\<close>
  | RoleClick string string             \<comment> \<open>\<^verbatim>\<open>page.getByRole(role, {name}).click()\<close>\<close>
  | LocatorFirstClick string            \<comment> \<open>\<^verbatim>\<open>page.locator(sel).first().click()\<close>\<close>
  | WaitFor string nat                  \<comment> \<open>\<^verbatim>\<open>page.locator(sel).waitFor({timeout})\<close>\<close>
  | GrantPermissions "string list"      \<comment> \<open>\<^verbatim>\<open>context.grantPermissions(perms)\<close>\<close>
  | ReadClipboard                       \<comment> \<open>\<^verbatim>\<open>page.evaluate(() => navigator.clipboard.readText())\<close>\<close>
  | ContextCookies                      \<comment> \<open>\<^verbatim>\<open>context.cookies()\<close>\<close>
  | AddCookies json                     \<comment> \<open>\<^verbatim>\<open>context.addCookies(cookies)\<close>\<close>
  | KeyboardPress string                \<comment> \<open>\<^verbatim>\<open>page.keyboard.press(key)\<close>\<close>
  | Sleep nat                           \<comment> \<open>\<^verbatim>\<open>new Promise(resolve => setTimeout(resolve, ms))\<close>\<close>

datatype error =
    Error string        \<comment> \<open>\<^verbatim>\<open>throw new Error(message)\<close> of the script itself\<close>
  | Rejected call       \<comment> \<open>the rejection of a call to the outside\<close>
  | SyntaxError         \<comment> \<open>\<^verbatim>\<open>JSON.parse\<close> on text that is not JSON\<close>
  | TypeError           \<comment> \<open>reading a property of \<^verbatim>\<open>null\<close>\<close>

text \<open>How a call ended, with what it resolved to when the script uses that.\<close>

datatype outcome =
    Rejects                 \<comment> \<open>the promise rejects\<close>
  | Resolves                \<comment> \<open>it resolves, to nothing the script uses\<close>
  | Actions "action list"   \<comment> \<open>\<^verbatim>\<open>page.observe\<close> resolves to this list\<close>
  | Text string             \<comment> \<open>\<^verbatim>\<open>fs.readFile\<close> or \<^verbatim>\<open>clipboard.readText\<close> resolves to this string\<close>
  | Cookies json            \<comment> \<open>\<^verbatim>\<open>context.cookies\<close> resolves to this value\<close>

text \<open>A trace entry: the call and how it ended.\<close>

type_synonym event = "call \<times> outcome"

text \<open>
  The oracle. Each field is indexed by the position of the call in the trace.
  \<open>duration\<close> is the time the call takes in milliseconds (for a timer, the time by which
  it fires late).
\<close>

record env =
  fails :: "nat \<Rightarrow> bool"
  duration :: "nat \<Rightarrow> nat"
  observed :: "nat \<Rightarrow> action list"
  clipboard :: "nat \<Rightarrow> string"
  browser_cookies :: "nat \<Rightarrow> json"

text \<open>
  The operations of the JavaScript runtime on \<^verbatim>\<open>any\<close> values that the script uses and
  that are library code: \<^verbatim>\<open>JSON.parse\<close> (\<open>None\<close> when it throws),
  \<^verbatim>\<open>JSON.stringify(v, null, 2)\<close>, and the coercion of a string, array or object to a
  number (\<open>None\<close> for NaN).
\<close>

record jsrt =
  JSON_parse :: "string \<Rightarrow> json option"
  JSON_stringify :: "json \<Rightarrow> string"
  ToNumber :: "json \<Rightarrow> int option"

text \<open>\<^verbatim>\<open>process.env\<close>: a variable is unset (\<open>None\<close>) or holds a string.\<close>

record process_env =
  GITHUB_EMAIL :: "string option"
  GITHUB_PASSWORD :: "string option"

record world =
  now :: nat                            \<comment> \<open>\<^verbatim>\<open>Date.now()\<close>, milliseconds\<close>
  trace :: "event list"
  disk :: "string \<Rightarrow> string option"    \<comment> \<open>path to content\<close>

type_synonym 'a prog = "world \<Rightarrow> (error + 'a) \<times> world"

definition ret :: "'a \<Rightarrow> 'a prog" where
  "ret x w = (Inr x, w)"

definition throw :: "error \<Rightarrow> 'a prog" where
  "throw e w = (Inl e, w)"

text \<open>\<open>await m f\<close> is \<^verbatim>\<open>const x = await m; f(x)\<close>: an error of \<open>m\<close> skips \<open>f\<close>.\<close>

definition await :: "'a prog \<Rightarrow> ('a \<Rightarrow> 'b prog) \<Rightarrow> 'b prog" where
  "await m f w = (case m w of (Inl e, w') \<Rightarrow> (Inl e, w') | (Inr x, w') \<Rightarrow> f x w')"

text \<open>\<open>try_catch m h\<close> is \<^verbatim>\<open>try { m } catch (error) { h(error) }\<close>.\<close>

definition try_catch :: "'a prog \<Rightarrow> (error \<Rightarrow> 'a prog) \<Rightarrow> 'a prog" where
  "try_catch m h w = (case m w of (Inl e, w') \<Rightarrow> h e w' | (Inr x, w') \<Rightarrow> (Inr x, w'))"

text \<open>A synchronous computation that may throw, run inside a program.\<close>

definition lift :: "error + 'a \<Rightarrow> 'a prog" where
  "lift r w = (r, w)"

text \<open>
  A call to the outside that returns nothing the script uses: it is appended to the trace
  with its outcome, the clock advances by its duration, and it rejects when the oracle
  says so.
\<close>

definition perform :: "env \<Rightarrow> call \<Rightarrow> unit prog" where
  "perform env c w =
     (let k = length (trace w);
          w' = w\<lparr>now := now w + duration env k,
                 trace := trace w @ [(c, if fails env k then Rejects else Resolves)]\<rparr>
      in (if fails env k then Inl (Rejected c) else Inr (), w'))"

text \<open>A timer never rejects and fires no earlier than asked.\<close>

definition sleep :: "env \<Rightarrow> nat \<Rightarrow> unit prog" where
  "sleep env ms w =
     (let k = length (trace w)
      in (Inr (), w\<lparr>now := now w + ms + duration env k, trace := trace w @ [(Sleep ms, Resolves)]\<rparr>))"

text \<open>Reading rejects when the oracle says so or when there is no file at the path.\<close>

definition readFile :: "env \<Rightarrow> string \<Rightarrow> string prog" where
  "readFile env path w =
     (let k = length (trace w);
          r = (if fails env k then None else disk w path);
          w' = w\<lparr>now := now w + duration env k,
                 trace := trace w @ [(ReadFile path, case r of None \<Rightarrow> Rejects | Some s \<Rightarrow> Text s)]\<rparr>
      in (case r of None \<Rightarrow> Inl (Rejected (ReadFile path)) | Some s \<Rightarrow> Inr s, w'))"

text \<open>A write that succeeds replaces the whole content; one that rejects leaves the disk as it was.\<close>

definition writeFile :: "env \<Rightarrow> string \<Rightarrow> string \<Rightarrow> unit prog" where
  "writeFile env path content w =
     (let k = length (trace w);
          w' = w\<lparr>now := now w + duration env k,
                 trace := trace w @ [(WriteFile path content, if fails env k then Rejects else Resolves)],
                 disk := (if fails env k then disk w else (disk w)(path \<mapsto> content))\<rparr>
      in (if fails env k then Inl (Rejected (WriteFile path content)) else Inr (), w'))"

text \<open>
  A call to the outside whose value the script uses: as \<open>perform\<close>, and when it resolves
  the value \<open>x\<close> the oracle gives is returned and recorded as \<open>shown x\<close>.
\<close>

definition request :: "env \<Rightarrow> call \<Rightarrow> (nat \<Rightarrow> 'a) \<Rightarrow> ('a \<Rightarrow> outcome) \<Rightarrow> 'a prog" where
  "request env c answer shown w =
     (let k = length (trace w);
          w' = w\<lparr>now := now w + duration env k,
                 trace := trace w @ [(c, if fails env k then Rejects else shown (answer k))]\<rparr>
      in (if fails env k then Inl (Rejected c) else Inr (answer k), w'))"

definition observe :: "env \<Rightarrow> string \<Rightarrow> action list prog" where
  "observe env instruction = request env (Observe instruction) (observed env) Actions"

definition readClipboard :: "env \<Rightarrow> string prog" where
  "readClipboard env = request env ReadClipboard (clipboard env) Text"

definition contextCookies :: "env \<Rightarrow> json prog" where
  "contextCookies env = request env ContextCookies (browser_cookies env) Cookies"

subsection \<open>String methods\<close>

definition toLowerCase_char :: "char \<Rightarrow> char" where
  "toLowerCase_char c =
     (let n = of_char c :: nat
      in if (65 \<le> n \<and> n \<le> 90) \<or> (192 \<le> n \<and> n \<le> 222 \<and> n \<noteq> 215) then char_of (n + 32) else c)"

definition toLowerCase :: "string \<Rightarrow> string" where
  "toLowerCase s = map toLowerCase_char s"

text \<open>\<^verbatim>\<open>s.includes(sub)\<close>: \<open>sub\<close> occurs in \<open>s\<close> as a contiguous run.\<close>

definition includes_str :: "string \<Rightarrow> string \<Rightarrow> bool" where
  "includes_str s sub = sublist sub s"

text \<open>White space and line terminators among the code units below 256.\<close>

definition is_whitespace :: "char \<Rightarrow> bool" where
  "is_whitespace c = (of_char c \<in> {9, 10, 11, 12, 13, 32, 160 :: nat})"

definition trim :: "string \<Rightarrow> string" where
  "trim s = rev (dropWhile is_whitespace (rev (dropWhile is_whitespace s)))"

subsection \<open>Constants\<close>

definition COOKIES_PATH :: string where
  "COOKIES_PATH = ''./cookies.json''"

definition MAX_GENERATION_TIME :: nat where
  "MAX_GENERATION_TIME = 180000"

section \<open>The cookie file\<close>

definition loadCookies :: "jsrt \<Rightarrow> env \<Rightarrow> json prog" where
  "loadCookies js env =
     try_catch
       (await (readFile env COOKIES_PATH) (\<lambda>cookiesData.
          case JSON_parse js cookiesData of None \<Rightarrow> throw SyntaxError | Some v \<Rightarrow> ret v))
       (\<lambda>error. ret (JArr []))"

definition saveCookies :: "jsrt \<Rightarrow> env \<Rightarrow> json \<Rightarrow> unit prog" where
  "saveCookies js env cookies = writeFile env COOKIES_PATH (JSON_stringify js cookies)"

section \<open>Login\<close>

text \<open>
  The test applied to the list that \<^verbatim>\<open>page.observe\<close> returns, once before and once
  after the login attempt: some action's description mentions signing in.
\<close>

definition mentions_login :: "action list \<Rightarrow> bool" where
  "mentions_login actions =
     list_ex (\<lambda>action.
        includes_str (toLowerCase (description action)) ''sign in'' \<or>
        includes_str (toLowerCase (description action)) ''login'') actions"

text \<open>A string of \<^verbatim>\<open>process.env\<close> used as a condition: unset and empty are both falsy.\<close>

definition truthy :: "string option \<Rightarrow> bool" where
  "truthy v = (case v of None \<Rightarrow> False | Some s \<Rightarrow> s \<noteq> [])"

definition login_instruction :: string where
  "login_instruction = ''check if there are any sign in or login elements on the page''"

definition checkAndLogin :: "jsrt \<Rightarrow> env \<Rightarrow> process_env \<Rightarrow> bool prog" where
  "checkAndLogin js env penv =
     await (observe env login_instruction) (\<lambda>actions.
     let needsLogin = mentions_login actions in
     if needsLogin then
       await (perform env (Act ''click the sign in button'' [])) (\<lambda>_.
       await (perform env (Act ''click sign in with github'' [])) (\<lambda>_.
       if truthy (GITHUB_EMAIL penv) \<and> truthy (GITHUB_PASSWORD penv) then
         await (perform env (Act ''enter %email% into the email field''
                  [(''email'', the (GITHUB_EMAIL penv))])) (\<lambda>_.
         await (perform env (Act ''enter %password% into the password field''
                  [(''password'', the (GITHUB_PASSWORD penv))])) (\<lambda>_.
         await (perform env (Act ''click the sign in button'' [])) (\<lambda>_.
         await (sleep env 2000) (\<lambda>_.
         await (observe env login_instruction) (\<lambda>postLoginActions.
         let stillNeedsLogin = mentions_login postLoginActions in
         if \<not> stillNeedsLogin then
           await (contextCookies env) (\<lambda>cookies.
           await (saveCookies js env cookies) (\<lambda>_.
           ret True))
         else throw (Error ''Login failed - still seeing login elements after attempt''))))))
       else ret False))
     else ret False)"

section \<open>Waiting for the generation\<close>

definition retry_marker :: string where
  \<open>retry_marker = ''span.hidden.sm'' @ [CHR 0x5C] @ '':inline-block:text("Retry")''\<close>

text \<open>
  The loop of \<open>waitForGeneration\<close>. The \<^verbatim>\<open>try\<close> block returns \<open>true\<close> when the wait for
  the marker resolves; the \<^verbatim>\<open>catch\<close> block sleeps and the loop goes round.
\<close>

function wait_loop :: "env \<Rightarrow> nat \<Rightarrow> bool prog" where
  "wait_loop env startTime w =
     (if now w - startTime < MAX_GENERATION_TIME then
        (case perform env (WaitFor retry_marker 5000) w of
           (Inr _, w') \<Rightarrow> (Inr True, w')
         | (Inl _, w') \<Rightarrow>
             (case sleep env 5000 w' of (_, w'') \<Rightarrow> wait_loop env startTime w''))
      else (Inl (Error ''Generation timed out''), w))"
  by pat_completeness auto
termination
  by (relation "measure (\<lambda>(env, startTime, w). (startTime + MAX_GENERATION_TIME) - now w)")
     (auto simp: perform_def sleep_def Let_def split: if_splits)

definition waitForGeneration :: "env \<Rightarrow> bool prog" where
  "waitForGeneration env w = (let startTime = now w in wait_loop env startTime w)"

section \<open>Extracting the code\<close>

definition maxAttempts :: nat where
  "maxAttempts = 5"

text \<open>The three ways of clicking the Code tab, in the order of the source.\<close>

definition text_click :: call where
  \<open>text_click = LocatorClick ''span:text("Code")''\<close>

definition role_click :: call where
  "role_click = RoleClick ''tab'' ''Code''"

definition act_click :: call where
  "act_click = Act ''click the Code tab in the top navigation'' []"

definition copy_button :: string where
  \<open>copy_button = ''button[aria-label="Copy"]:has(svg.copy-icon)''\<close>

text \<open>The nested \<^verbatim>\<open>try\<close> blocks that click the Code tab (lines 141 to 152).\<close>

definition click_code_tab :: "env \<Rightarrow> unit prog" where
  "click_code_tab env =
     try_catch (perform env text_click) (\<lambda>_.
       try_catch (perform env role_click) (\<lambda>_.
         perform env act_click))"

text \<open>The condition under which the clipboard text is returned (lines 163 to 170).\<close>

definition looks_like_code :: "string \<Rightarrow> bool" where
  "looks_like_code codeContent =
     ((codeContent \<noteq> [] \<and> length (trim codeContent) > 0) \<and>
      (includes_str codeContent ''import'' \<or>
       includes_str codeContent ''function'' \<or>
       includes_str codeContent ''const'' \<or>
       includes_str codeContent ''class'' \<or>
       includes_str codeContent ''export'' \<or>
       includes_str codeContent ''interface'' \<or>
       includes_str codeContent ''type''))"

text \<open>
  The outer \<^verbatim>\<open>try\<close> block of one round of the loop: \<open>Some files\<close> when it returns from
  the function, \<open>None\<close> when it falls through.
\<close>

definition extract_attempt :: "env \<Rightarrow> code_files option prog" where
  "extract_attempt env =
     await (click_code_tab env) (\<lambda>_.
     await (perform env (GrantPermissions [''clipboard-read'', ''clipboard-write''])) (\<lambda>_.
     await (perform env (LocatorFirstClick copy_button)) (\<lambda>_.
     await (sleep env 500) (\<lambda>_.
     await (readClipboard env) (\<lambda>codeContent.
     if looks_like_code codeContent then ret (Some [(''code.tsx'', codeContent)])
     else ret None)))))"

function extract_loop :: "env \<Rightarrow> nat \<Rightarrow> code_files prog" where
  "extract_loop env attempts w =
     (if attempts < maxAttempts then
        (case try_catch (extract_attempt env) (\<lambda>error. ret None) w of
           (Inr (Some files), w') \<Rightarrow> (Inr files, w')
         | (_, w') \<Rightarrow>
             (case sleep env 2000 w' of (_, w'') \<Rightarrow> extract_loop env (attempts + 1) w''))
      else (Inl (Error ''Failed to extract code after multiple attempts''), w))"
  by pat_completeness auto
termination
  by (relation "measure (\<lambda>(env, attempts, w). maxAttempts - attempts)") auto

definition extractCode :: "env \<Rightarrow> code_files prog" where
  "extractCode env w = (let attempts = 0 in extract_loop env attempts w)"

section \<open>The main function\<close>

text \<open>
  \<^verbatim>\<open>cookies.length\<close> on a value of type \<^verbatim>\<open>any\<close>: \<open>None\<close> is \<^verbatim>\<open>undefined\<close>; reading a
  property of \<^verbatim>\<open>null\<close> throws.
\<close>

fun length_property :: "json \<Rightarrow> error + json option" where
  "length_property JNull = Inl TypeError"
| "length_property (JBool b) = Inr None"
| "length_property (JNum n) = Inr None"
| "length_property (JStr s) = Inr (Some (JNum (int (length s))))"
| "length_property (JArr xs) = Inr (Some (JNum (int (length xs))))"
| "length_property (JObj kvs) = Inr (map_of kvs ''length'')"

text \<open>\<^verbatim>\<open>x > 0\<close>\<close>

fun greater_zero :: "jsrt \<Rightarrow> json option \<Rightarrow> bool" where
  "greater_zero js None = False"
| "greater_zero js (Some JNull) = False"
| "greater_zero js (Some (JBool b)) = b"
| "greater_zero js (Some (JNum n)) = (n > 0)"
| "greater_zero js (Some v) = (case ToNumber js v of None \<Rightarrow> False | Some n \<Rightarrow> n > 0)"

text \<open>\<^verbatim>\<open>!x\<close>\<close>

fun js_not :: "json option \<Rightarrow> bool" where
  "js_not None = True"
| "js_not (Some JNull) = True"
| "js_not (Some (JBool b)) = (\<not> b)"
| "js_not (Some (JNum n)) = (n = 0)"
| "js_not (Some (JStr s)) = (s = [])"
| "js_not (Some v) = False"

definition prompt_template :: "string \<Rightarrow> string" where
  "prompt_template flowerType =
     ''Create a beautiful '' @ flowerType @
     '' themed Valentine's day card with a romantic message. Make sure that it is only a single file.''"

text \<open>The statements of \<open>main\<close> from entering the prompt to the return (lines 216 to 239).\<close>

definition prompt_action :: string where
  "prompt_action = ''enter %prompt% into the prompt textarea''"

definition submit_and_extract :: "jsrt \<Rightarrow> env \<Rightarrow> string \<Rightarrow> code_files prog" where
  "submit_and_extract js env flowerType =
     (let prompt = prompt_template flowerType in
      await (perform env (Act prompt_action [(''prompt'', prompt)])) (\<lambda>_.
      await (perform env (KeyboardPress ''Enter'')) (\<lambda>_.
      await (waitForGeneration env) (\<lambda>_.
      await (extractCode env) (\<lambda>files.
      await (contextCookies env) (\<lambda>latestCookies.
      await (saveCookies js env latestCookies) (\<lambda>_.
      ret files)))))))"

definition main :: "jsrt \<Rightarrow> env \<Rightarrow> process_env \<Rightarrow> string \<Rightarrow> code_files prog" where
  "main js env penv flowerType =
     try_catch
       (await (perform env (Goto ''https://v0.dev'')) (\<lambda>_.
        await (loadCookies js env) (\<lambda>cookies.
        await (lift (length_property cookies)) (\<lambda>len.
        await (if greater_zero js len then perform env (AddCookies cookies) else ret ()) (\<lambda>_.
        await (lift (length_property cookies)) (\<lambda>len.
        await (if js_not len
               then await (checkAndLogin js env penv) (\<lambda>needsLogin. ret ())
               else ret ()) (\<lambda>_.
        submit_and_extract js env flowerType)))))))
       (\<lambda>error. throw error)"

section \<open>Reading the trace\<close>

text \<open>The calls a function added to the trace: those of \<open>w'\<close> after those of \<open>w\<close>.\<close>

definition new_events :: "world \<Rightarrow> world \<Rightarrow> event list" where
  "new_events w w' = drop (length (trace w)) (trace w')"

text \<open>
  Properties of a trace are stated on its adjacent entries (\<open>successively\<close>).
  \<open>fallback_step\<close>: the role locator is tried only right after the text locator has
  rejected, the delegated instruction only right after the role locator has rejected; a
  rejected locator is followed by the next strategy; and after the pause between two
  attempts the text locator comes first again.
\<close>

definition fallback_step :: "event \<Rightarrow> event \<Rightarrow> bool" where
  "fallback_step e1 e2 =
     ((fst e2 = role_click \<longrightarrow> e1 = (text_click, Rejects)) \<and>
      (fst e2 = act_click \<longrightarrow> e1 = (role_click, Rejects)) \<and>
      (e1 = (text_click, Rejects) \<longrightarrow> fst e2 = role_click) \<and>
      (e1 = (role_click, Rejects) \<longrightarrow> fst e2 = act_click) \<and>
      (e1 = (Sleep 2000, Resolves) \<longrightarrow> fst e2 = text_click))"

text \<open>\<open>retry_step\<close>: an attempt that is not the first starts right after a pause of 2000 ms.\<close>

definition retry_step :: "event \<Rightarrow> event \<Rightarrow> bool" where
  "retry_step e1 e2 = (fst e2 = text_click \<longrightarrow> e1 = (Sleep 2000, Resolves))"

text \<open>Every attempt starts with the text locator, so the attempts are counted by it.\<close>

definition attempts_made :: "event list \<Rightarrow> nat" where
  "attempts_made evs = length (filter (\<lambda>e. fst e = text_click) evs)"

text \<open>
  \<open>content_step\<close>: a clipboard text after which the function went on did not pass the
  filter, and what follows it is the pause before the next attempt.
\<close>

definition content_step :: "event \<Rightarrow> event \<Rightarrow> bool" where
  "content_step e1 e2 =
     (\<forall>text. e1 = (ReadClipboard, Text text) \<longrightarrow>
        \<not> looks_like_code text \<and> e2 = (Sleep 2000, Resolves))"

text \<open>
  The poll of \<open>waitForGeneration\<close>, and \<open>poll_step\<close>: two adjacent entries are a poll that
  rejected and the pause of 5000 ms, or that pause and the next poll. Nothing follows a
  poll that resolved.
\<close>

definition poll :: call where
  "poll = WaitFor retry_marker 5000"

definition poll_step :: "event \<Rightarrow> event \<Rightarrow> bool" where
  "poll_step e1 e2 =
     ((e1 = (poll, Rejects) \<and> e2 = (Sleep 5000, Resolves)) \<or>
      (e1 = (Sleep 5000, Resolves) \<and> fst e2 = poll))"

definition polls_made :: "event list \<Rightarrow> nat" where
  "polls_made evs = length (filter (\<lambda>e. fst e = poll) evs)"

text \<open>
  \<open>calls_only S m\<close>: whatever the world, \<open>m\<close> only adds to the trace, and only calls that
  are in \<open>S\<close>. \<open>on_success_calls c m\<close>: when \<open>m\<close> returns a value, it has made the call \<open>c\<close>
  and that call resolved.
\<close>

definition calls_only :: "call set \<Rightarrow> 'a prog \<Rightarrow> bool" where
  "calls_only S m = (\<forall>w. \<exists>evs. trace (snd (m w)) = trace w @ evs \<and> fst ` set evs \<subseteq> S)"

definition on_success_calls :: "call \<Rightarrow> 'a prog \<Rightarrow> bool" where
  "on_success_calls c m =
     (\<forall>w x w'. m w = (Inr x, w') \<longrightarrow> (c, Resolves) \<in> set (new_events w w'))"

text \<open>\<open>always_calls c m\<close>: whatever the world and whatever the outcome, \<open>m\<close> makes the call \<open>c\<close>.\<close>

definition always_calls :: "call \<Rightarrow> 'a prog \<Rightarrow> bool" where
  "always_calls c m = (\<forall>w. c \<in> fst ` set (new_events w (snd (m w))))"

text \<open>The calls that each part of the script can make.\<close>

definition login_calls :: "call set" where
  "login_calls =
     {c. \<exists>variables.
           c = Act ''click the sign in button'' [] \<or>
           c = Act ''click sign in with github'' [] \<or>
           c = Act ''enter %email% into the email field'' variables \<or>
           c = Act ''enter %password% into the password field'' variables \<or>
           c = Observe login_instruction \<or> c = Sleep 2000 \<or> c = ContextCookies \<or>
           (\<exists>content. c = WriteFile COOKIES_PATH content)}"

definition wait_calls :: "call set" where
  "wait_calls = {poll, Sleep 5000}"

definition extract_calls :: "call set" where
  "extract_calls =
     {text_click, role_click, act_click,
      GrantPermissions [''clipboard-read'', ''clipboard-write''],
      LocatorFirstClick copy_button, Sleep 500, ReadClipboard, Sleep 2000}"

definition submit_calls :: "string \<Rightarrow> call set" where
  "submit_calls flowerType =
     {Act prompt_action [(''prompt'', prompt_template flowerType)], KeyboardPress ''Enter'',
      ContextCookies} \<union> {c. \<exists>content. c = WriteFile COOKIES_PATH content}
     \<union> wait_calls \<union> extract_calls"

text \<open>The calls that, when they enter the prompt, enter the template filled with \<open>flowerType\<close>.\<close>

definition prompt_calls :: "string \<Rightarrow> call set" where
  "prompt_calls flowerType =
     {c. \<forall>variables. c = Act prompt_action variables \<longrightarrow>
           variables = [(''prompt'', prompt_template flowerType)]}"

text \<open>The entries of a trace that submit credentials, and those that write a file.\<close>

definition submits_credentials :: "event \<Rightarrow> bool" where
  "submits_credentials e =
     (case fst e of
        Act action variables \<Rightarrow>
          action = ''enter %email% into the email field'' \<or>
          action = ''enter %password% into the password field''
      | _ \<Rightarrow> False)"

definition writes_file :: "event \<Rightarrow> bool" where
  "writes_file e = (case fst e of WriteFile path content \<Rightarrow> True | _ \<Rightarrow> False)"

section \<open>Sample environments\<close>

text \<open>
  Concrete inputs on which the theorems below are exercised: a JSON library that knows two
  texts, an environment in which no call rejects and every call is instantaneous, and a
  world at time zero whose disk holds at most the cookie file.
\<close>

definition sample_js :: jsrt where
  "sample_js =
     \<lparr>JSON_parse = (\<lambda>s. if s = ''[]'' then Some (JArr [])
                         else if s = ''[null]'' then Some (JArr [JNull]) else None),
      JSON_stringify = (\<lambda>v. if v = JArr [JNull] then ''[null]'' else ''[]''),
      ToNumber = (\<lambda>v. None)\<rparr>"

definition quiet_env :: env where
  "quiet_env =
     \<lparr>fails = (\<lambda>k. False), duration = (\<lambda>k. 0), observed = (\<lambda>k. []),
      clipboard = (\<lambda>k. []), browser_cookies = (\<lambda>k. JArr [])\<rparr>"

text \<open>
  An environment in which the calls at the positions \<open>failing\<close> reject, an observation at
  a position in \<open>login_at\<close> reports a sign-in button, and the clipboard holds \<open>text\<close>.
\<close>

definition sign_in_button :: "action list" where
  "sign_in_button = [\<lparr>description = ''Sign in with GitHub'', selector = ''#login''\<rparr>]"

definition sample_env :: "nat list \<Rightarrow> nat list \<Rightarrow> string \<Rightarrow> env" where
  "sample_env failing login_at text =
     \<lparr>fails = (\<lambda>k. k \<in> set failing), duration = (\<lambda>k. 0),
      observed = (\<lambda>k. if k \<in> set login_at then sign_in_button else []),
      clipboard = (\<lambda>k. text), browser_cookies = (\<lambda>k. JArr [JNull])\<rparr>"

definition sample_credentials :: process_env where
  "sample_credentials =
     \<lparr>GITHUB_EMAIL = Some ''me@example.com'', GITHUB_PASSWORD = Some ''secret''\<rparr>"

definition no_credentials :: process_env where
  "no_credentials = \<lparr>GITHUB_EMAIL = None, GITHUB_PASSWORD = None\<rparr>"

definition world_with :: "string option \<Rightarrow> world" where
  "world_with content =
     \<lparr>now = 0, trace = [], disk = (\<lambda>p. if p = COOKIES_PATH then content else None)\<rparr>"

section \<open>Properties of the cookie file\<close>

text \<open>
  C1. \<open>loadCookies\<close> is best effort. It never propagates an error. When reading the cookie
  file is rejected it returns the empty array, when the text read is not JSON it returns
  the empty array, and when the file is read and parsed it returns the parsed value.
\<close>

theorem loadCookies_best_effort:
  "(\<exists>v. fst (loadCookies js env w) = Inr v) \<and>
   (\<forall>e. fst (readFile env COOKIES_PATH w) = Inl e \<longrightarrow>
        fst (loadCookies js env w) = Inr (JArr [])) \<and>
   (\<forall>s. fst (readFile env COOKIES_PATH w) = Inr s \<and> JSON_parse js s = None \<longrightarrow>
        fst (loadCookies js env w) = Inr (JArr [])) \<and>
   (\<forall>s v. fst (readFile env COOKIES_PATH w) = Inr s \<and> JSON_parse js s = Some v \<longrightarrow>
        fst (loadCookies js env w) = Inr v)"
  by (auto simp: loadCookies_def try_catch_def await_def readFile_def ret_def throw_def Let_def
           split: option.splits)

text \<open>The three cases on a disk without the file, with a file that is not JSON, and with a
  file holding an array.\<close>

theorem loadCookies_best_effort_witness:
  "fst (loadCookies sample_js quiet_env (world_with None)) = Inr (JArr []) \<and>
   fst (loadCookies sample_js quiet_env (world_with (Some ''{''))) = Inr (JArr []) \<and>
   fst (loadCookies sample_js quiet_env (world_with (Some ''[null]''))) = Inr (JArr [JNull])"
proof -
  have a: "fst (readFile quiet_env COOKIES_PATH (world_with None))
             = Inl (Rejected (ReadFile COOKIES_PATH))"
    by (simp add: readFile_def quiet_env_def world_with_def)
  have b: "fst (readFile quiet_env COOKIES_PATH (world_with (Some ''{''))) = Inr ''{''
             \<and> JSON_parse sample_js ''{'' = None"
    by (simp add: readFile_def quiet_env_def world_with_def sample_js_def)
  have c: "fst (readFile quiet_env COOKIES_PATH (world_with (Some ''[null]''))) = Inr ''[null]''
             \<and> JSON_parse sample_js ''[null]'' = Some (JArr [JNull])"
    by (simp add: readFile_def quiet_env_def world_with_def sample_js_def)
  from a b c
    loadCookies_best_effort [of sample_js quiet_env "world_with None"]
    loadCookies_best_effort [of sample_js quiet_env "world_with (Some ''{'')"]
    loadCookies_best_effort [of sample_js quiet_env "world_with (Some ''[null]'')"]
  show ?thesis by blast
qed

text \<open>
  C2. Saving and loading round-trip. Let \<open>cookies\<close> be a value that the JSON library
  serialises and parses back to itself. When \<open>saveCookies\<close> returns, the cookie file holds
  exactly the serialised text whatever it held before, and no other file has changed; a
  later \<open>loadCookies\<close>, in any world in which the cookie file has not been written since
  and in which the read is not rejected, returns \<open>cookies\<close>.
\<close>

theorem saveCookies_loadCookies_roundtrip:
  assumes "JSON_parse js (JSON_stringify js cookies) = Some cookies"
      and "saveCookies js env cookies w = (Inr (), w1)"
      and "disk w2 COOKIES_PATH = disk w1 COOKIES_PATH"
      and "\<not> fails env2 (length (trace w2))"
  shows "disk w1 = (disk w)(COOKIES_PATH \<mapsto> JSON_stringify js cookies) \<and>
         fst (loadCookies js env2 w2) = Inr cookies"
  using assms
  by (auto simp: saveCookies_def writeFile_def loadCookies_def try_catch_def await_def
        readFile_def ret_def throw_def Let_def split: if_splits)

text \<open>Saving \<^verbatim>\<open>[null]\<close> over a cookie file that held \<^verbatim>\<open>[]\<close>, then loading.\<close>

theorem saveCookies_loadCookies_roundtrip_witness:
  "disk (snd (saveCookies sample_js quiet_env (JArr [JNull]) (world_with (Some ''[]''))))
     = (disk (world_with (Some ''[]'')))(COOKIES_PATH \<mapsto> ''[null]'') \<and>
   fst (loadCookies sample_js quiet_env
         (snd (saveCookies sample_js quiet_env (JArr [JNull]) (world_with (Some ''[]'')))))
     = Inr (JArr [JNull])"
proof -
  let ?w1 = "snd (saveCookies sample_js quiet_env (JArr [JNull]) (world_with (Some ''[]'')))"
  have rt: "JSON_parse sample_js (JSON_stringify sample_js (JArr [JNull])) = Some (JArr [JNull])"
    by (simp add: sample_js_def)
  have sv: "saveCookies sample_js quiet_env (JArr [JNull]) (world_with (Some ''[]'')) = (Inr (), ?w1)"
    by (simp add: saveCookies_def writeFile_def quiet_env_def)
  have ok: "\<not> fails quiet_env (length (trace ?w1))"
    by (simp add: quiet_env_def)
  have js: "JSON_stringify sample_js (JArr [JNull]) = ''[null]''"
    by (simp add: sample_js_def)
  from saveCookies_loadCookies_roundtrip [OF rt sv refl ok] js
  show ?thesis by simp
qed

section \<open>Properties of the extraction loop\<close>

lemma new_events_append [simp]: "trace w' = trace w @ evs \<Longrightarrow> new_events w w' = evs"
  by (simp add: new_events_def)

text \<open>
  One round of the loop, and then the loop by induction along its recursion: what the
  three theorems on \<open>extractCode\<close> need of the trace and of the result.
\<close>

lemmas prim_defs = await_def try_catch_def perform_def request_def sleep_def readClipboard_def
  ret_def throw_def Let_def

lemma attempt_props:
  assumes "try_catch (extract_attempt env) (\<lambda>error. ret None) w = (r, w1)"
  shows "\<exists>att. trace w1 = trace w @ att \<and> att \<noteq> [] \<and> fst (hd att) = text_click \<and>
           successively fallback_step att \<and> successively retry_step att \<and>
           last att \<noteq> (text_click, Rejects) \<and> last att \<noteq> (role_click, Rejects) \<and>
           attempts_made att = 1 \<and>
           successively content_step att \<and> last att \<noteq> (Sleep 2000, Resolves) \<and>
           (\<exists>res. r = Inr res \<and>
              (case res of
                 Some files \<Rightarrow> \<exists>text. last att = (ReadClipboard, Text text) \<and>
                    files = [(''code.tsx'', text)] \<and> looks_like_code text
               | None \<Rightarrow> \<forall>text. last att = (ReadClipboard, Text text) \<longrightarrow> \<not> looks_like_code text))"
  using assms
  by (auto simp: extract_attempt_def click_code_tab_def prim_defs fallback_step_def retry_step_def
        attempts_made_def content_step_def text_click_def role_click_def act_click_def split: if_splits)

declare extract_loop.simps [simp del]

lemma successively_glue:
  assumes "successively P xs" "successively P ys" "xs \<noteq> []" "P (last xs) s"
      and "ys = [] \<or> P s (hd ys)"
  shows "successively P (xs @ s # ys)"
  using assms by (cases ys) (auto simp: successively_append_iff successively_Cons)

lemma extract_loop_props:
  "\<exists>evs. trace (snd (extract_loop env n w)) = trace w @ evs \<and>
      successively fallback_step evs \<and> successively retry_step evs \<and>
      successively content_step evs \<and>
      (n < maxAttempts \<longrightarrow> evs \<noteq> []) \<and>
      (evs = [] \<or> fst (hd evs) = text_click) \<and>
      (evs = [] \<or> (last evs \<noteq> (text_click, Rejects) \<and> last evs \<noteq> (role_click, Rejects))) \<and>
      attempts_made evs \<le> maxAttempts - n \<and>
      ((\<exists>text. fst (extract_loop env n w) = Inr [(''code.tsx'', text)] \<and> evs \<noteq> [] \<and>
           last evs = (ReadClipboard, Text text) \<and> looks_like_code text) \<or>
       (fst (extract_loop env n w) = Inl (Error ''Failed to extract code after multiple attempts'') \<and>
        attempts_made evs = maxAttempts - n \<and>
        (evs = [] \<or> last evs = (Sleep 2000, Resolves))))"
proof (induction env n w rule: extract_loop.induct)
  case (1 env attempts w)
  show ?case
  proof (cases "attempts < maxAttempts")
    case False
    then show ?thesis
      by (intro exI[of _ "[]"]) (simp add: attempts_made_def extract_loop.simps [of env attempts w])
  next
    case True
    obtain r w1 where a: "try_catch (extract_attempt env) (\<lambda>error. ret None) w = (r, w1)"
      by (cases "try_catch (extract_attempt env) (\<lambda>error. ret None) w")
    from attempt_props [OF a] obtain att res where att:
      "trace w1 = trace w @ att" "att \<noteq> []" "fst (hd att) = text_click"
      "successively fallback_step att" "successively retry_step att"
      "last att \<noteq> (text_click, Rejects)" "last att \<noteq> (role_click, Rejects)"
      "attempts_made att = 1" "successively content_step att" "r = Inr res"
      "last att \<noteq> (Sleep 2000, Resolves)"
      "case res of
         Some files \<Rightarrow> \<exists>text. last att = (ReadClipboard, Text text) \<and>
            files = [(''code.tsx'', text)] \<and> looks_like_code text
       | None \<Rightarrow> \<forall>text. last att = (ReadClipboard, Text text) \<longrightarrow> \<not> looks_like_code text"
      by blast
    show ?thesis
    proof (cases res)
      case (Some files)
      with True a att show ?thesis
        by (intro exI[of _ att]) (auto simp: extract_loop.simps [of env attempts w])
    next
      case None
      obtain u w2 where s: "sleep env 2000 w1 = (u, w2)" by (cases "sleep env 2000 w1")
      then have tr2: "trace w2 = trace w1 @ [(Sleep 2000, Resolves)]"
        by (auto simp: sleep_def Let_def)
      from "1.IH"(2) [OF True a [symmetric] att(10) None s [symmetric]]
      obtain evs where ih:
        "trace (snd (extract_loop env (attempts + 1) w2)) = trace w2 @ evs"
        "successively fallback_step evs" "successively retry_step evs"
        "successively content_step evs"
        "evs = [] \<or> fst (hd evs) = text_click"
        "evs = [] \<or> (last evs \<noteq> (text_click, Rejects) \<and> last evs \<noteq> (role_click, Rejects))"
        "attempts_made evs \<le> maxAttempts - (attempts + 1)"
        "(\<exists>text. fst (extract_loop env (attempts + 1) w2) = Inr [(''code.tsx'', text)] \<and> evs \<noteq> [] \<and>
           last evs = (ReadClipboard, Text text) \<and> looks_like_code text) \<or>
         (fst (extract_loop env (attempts + 1) w2) = Inl (Error ''Failed to extract code after multiple attempts'') \<and>
          attempts_made evs = maxAttempts - (attempts + 1) \<and>
          (evs = [] \<or> last evs = (Sleep 2000, Resolves)))"
        by blast
      have unf: "extract_loop env attempts w = extract_loop env (attempts + 1) w2"
        using True a att(10) None s by (simp add: extract_loop.simps [of env attempts w])
      let ?evs = "att @ (Sleep 2000, Resolves) # evs"
      have t: "trace (snd (extract_loop env attempts w)) = trace w @ ?evs"
        using unf ih(1) tr2 att(1) by simp
      have f: "successively fallback_step ?evs"
        using att(2,4,6,7,11) ih(2,5)
        by (intro successively_glue)
           (auto simp: fallback_step_def text_click_def role_click_def act_click_def)
      have g: "successively retry_step ?evs"
        using att(2,5) ih(3,5)
        by (intro successively_glue) (auto simp: retry_step_def text_click_def)
      have c0: "successively content_step ?evs"
        using att(2,9,12) ih(4) None
        by (intro successively_glue) (auto simp: content_step_def)
      have h: "fst (hd ?evs) = text_click" using att by simp
      have l: "last ?evs \<noteq> (text_click, Rejects) \<and> last ?evs \<noteq> (role_click, Rejects)"
        using ih(6) by auto
      have c: "attempts_made ?evs = 1 + attempts_made evs"
        using att(8) by (simp add: attempts_made_def text_click_def)
      have o: "(\<exists>text. fst (extract_loop env attempts w) = Inr [(''code.tsx'', text)] \<and> ?evs \<noteq> [] \<and>
           last ?evs = (ReadClipboard, Text text) \<and> looks_like_code text) \<or>
         (fst (extract_loop env attempts w) = Inl (Error ''Failed to extract code after multiple attempts'') \<and>
          attempts_made ?evs = maxAttempts - attempts \<and>
          (?evs = [] \<or> last ?evs = (Sleep 2000, Resolves)))"
        using ih(8) ih(7) c True unfolding unf by auto
      have b: "attempts_made ?evs \<le> maxAttempts - attempts"
        using c ih(7) True by simp
      from t f g c0 h l b o show ?thesis
        by (intro exI[of _ ?evs]) simp
    qed
  qed
qed

lemmas eval_defs = extractCode_def extract_loop.simps extract_attempt_def click_code_tab_def
  await_def try_catch_def perform_def request_def sleep_def readClipboard_def ret_def throw_def
  Let_def maxAttempts_def quiet_env_def world_with_def sample_env_def new_events_def
  looks_like_code_def includes_str_def sublist_code trim_def is_whitespace_def
  text_click_def role_click_def act_click_def

text \<open>An entry of a trace is its last entry or has a successor.\<close>

lemma successively_member:
  "successively P xs \<Longrightarrow> x \<in> set xs \<Longrightarrow> x = last xs \<or> (\<exists>y. P x y)"
proof (induction xs rule: induct_list012)
  case 1
  then show ?case by simp
next
  case (2 a)
  then show ?case by simp
next
  case (3 a b zs)
  then show ?case by (auto simp: successively_Cons)
qed

text \<open>
  C4. \<open>extractCode\<close> retries a bounded number of times with a fixed pause. It is a total
  function: the loop is defined by recursion on \<open>maxAttempts - attempts\<close>. It makes at
  least one and at most 5 attempts, and every attempt but the first starts right after a
  pause of 2000 ms. Either an attempt yields accepted clipboard content: then the last call
  is the clipboard read of a text that passes the filter, and that text is returned under
  the key \<^verbatim>\<open>code.tsx\<close>. Or no attempt does: then no clipboard text read passes the
  filter, exactly 5 attempts were made, and after the pause that follows the fifth it
  throws \<^verbatim>\<open>Failed to extract code after multiple attempts\<close>.
\<close>

theorem extractCode_bounded_retries:
  assumes "extractCode env w = (r, w')"
  shows "1 \<le> attempts_made (new_events w w') \<and>
         attempts_made (new_events w w') \<le> 5 \<and>
         successively retry_step (new_events w w') \<and>
         ((\<exists>text. r = Inr [(''code.tsx'', text)] \<and>
                  last (new_events w w') = (ReadClipboard, Text text) \<and>
                  looks_like_code text) \<or>
          (r = Inl (Error ''Failed to extract code after multiple attempts'') \<and>
           attempts_made (new_events w w') = 5 \<and>
           last (new_events w w') = (Sleep 2000, Resolves) \<and>
           (\<forall>text. (ReadClipboard, Text text) \<in> set (new_events w w') \<longrightarrow>
                   \<not> looks_like_code text)))"
proof -
  from assms have run: "extract_loop env 0 w = (r, w')"
    by (simp add: extractCode_def)
  from extract_loop_props [of env 0 w] run obtain evs where e:
    "trace w' = trace w @ evs" "successively retry_step evs" "successively content_step evs"
    "evs \<noteq> []" "fst (hd evs) = text_click" "attempts_made evs \<le> maxAttempts"
    "(\<exists>text. r = Inr [(''code.tsx'', text)] \<and> last evs = (ReadClipboard, Text text) \<and>
        looks_like_code text) \<or>
     (r = Inl (Error ''Failed to extract code after multiple attempts'') \<and>
        attempts_made evs = maxAttempts \<and> last evs = (Sleep 2000, Resolves))"
    by (auto simp: maxAttempts_def)
  from e(4,5) have one: "1 \<le> attempts_made evs"
    by (cases evs) (simp_all add: attempts_made_def)
  have none: "\<not> looks_like_code t"
    if "last evs = (Sleep 2000, Resolves)" "(ReadClipboard, Text t) \<in> set evs" for t
  proof -
    from successively_member [OF e(3) that(2)] that(1)
    obtain y where "content_step (ReadClipboard, Text t) y" by auto
    then show ?thesis by (simp add: content_step_def)
  qed
  from e one none show ?thesis
    by (auto simp: maxAttempts_def)
qed

text \<open>Five attempts on an empty clipboard.\<close>

theorem extractCode_bounded_retries_witness:
  "fst (extractCode quiet_env (world_with None))
     = Inl (Error ''Failed to extract code after multiple attempts'') \<and>
   attempts_made (new_events (world_with None) (snd (extractCode quiet_env (world_with None)))) = 5 \<and>
   last (new_events (world_with None) (snd (extractCode quiet_env (world_with None))))
     = (Sleep 2000, Resolves) \<and>
   fst (extractCode (sample_env [] [] ''const x'') (world_with None))
     = Inr [(''code.tsx'', ''const x'')] \<and>
   last (new_events (world_with None)
          (snd (extractCode (sample_env [] [] ''const x'') (world_with None))))
     = (ReadClipboard, Text ''const x'')"
proof -
  let ?run = "extractCode quiet_env (world_with None)"
  let ?good = "extractCode (sample_env [] [] ''const x'') (world_with None)"
  have e: "fst ?run = Inl (Error ''Failed to extract code after multiple attempts'')"
    by (simp add: eval_defs)
  have g: "fst ?good = Inr [(''code.tsx'', ''const x'')]"
    by (simp add: eval_defs)
  have "?run = (fst ?run, snd ?run)" by simp
  note R = extractCode_bounded_retries [OF this]
  have "?good = (fst ?good, snd ?good)" by simp
  note G = extractCode_bounded_retries [OF this]
  from R e have
    "attempts_made (new_events (world_with None) (snd ?run)) = 5 \<and>
     last (new_events (world_with None) (snd ?run)) = (Sleep 2000, Resolves)"
    by auto
  moreover from G g have
    "last (new_events (world_with None) (snd ?good)) = (ReadClipboard, Text ''const x'')"
    by auto
  ultimately show ?thesis using e g by simp
qed

text \<open>
  C5. The Code tab is clicked by a fallback in a fixed order. The first call of
  \<open>extractCode\<close>, and the first call after each pause between attempts, is the click on the
  text locator. The role locator is tried only right after the text locator has rejected,
  and the delegated instruction only right after the role locator has rejected, which in
  turn was tried right after the text locator had rejected. A rejected locator is always
  followed by the next strategy.
\<close>

theorem code_tab_fallback_order:
  assumes "extractCode env w = (r, w')"
  shows "new_events w w' \<noteq> [] \<and> fst (hd (new_events w w')) = text_click \<and>
         successively fallback_step (new_events w w') \<and>
         last (new_events w w') \<noteq> (text_click, Rejects) \<and>
         last (new_events w w') \<noteq> (role_click, Rejects)"
proof -
  from assms have run: "extract_loop env 0 w = (r, w')"
    by (simp add: extractCode_def)
  from extract_loop_props [of env 0 w] run obtain evs where
    "trace w' = trace w @ evs" "successively fallback_step evs"
    "evs \<noteq> []" "fst (hd evs) = text_click"
    "last evs \<noteq> (text_click, Rejects) \<and> last evs \<noteq> (role_click, Rejects)"
    by (auto simp: maxAttempts_def)
  then show ?thesis
    by simp
qed

text \<open>A run in which both locators reject and the delegated instruction goes through.\<close>

theorem code_tab_fallback_order_witness:
  "new_events (world_with None) (snd (extractCode (sample_env [0, 1] [] ''const x'') (world_with None)))
     = [(text_click, Rejects), (role_click, Rejects), (act_click, Resolves),
        (GrantPermissions [''clipboard-read'', ''clipboard-write''], Resolves),
        (LocatorFirstClick copy_button, Resolves), (Sleep 500, Resolves),
        (ReadClipboard, Text ''const x'')] \<and>
   successively fallback_step
       [(text_click, Rejects), (role_click, Rejects), (act_click, Resolves),
        (GrantPermissions [''clipboard-read'', ''clipboard-write''], Resolves),
        (LocatorFirstClick copy_button, Resolves), (Sleep 500, Resolves),
        (ReadClipboard, Text ''const x'')]"
proof -
  let ?run = "extractCode (sample_env [0, 1] [] ''const x'') (world_with None)"
  have e: "new_events (world_with None) (snd ?run)
     = [(text_click, Rejects), (role_click, Rejects), (act_click, Resolves),
        (GrantPermissions [''clipboard-read'', ''clipboard-write''], Resolves),
        (LocatorFirstClick copy_button, Resolves), (Sleep 500, Resolves),
        (ReadClipboard, Text ''const x'')]"
    by (simp add: eval_defs)
  have "?run = (fst ?run, snd ?run)" by simp
  from code_tab_fallback_order [OF this] e
  show ?thesis by simp
qed

text \<open>
  C9. \<open>extractCode\<close> returns only clipboard text that passes the content filter. What it
  returns is the object with the single key \<^verbatim>\<open>code.tsx\<close> whose value is the text of the
  last clipboard read; that text is not empty after trimming and contains one of the
  seven substrings. Every clipboard text read is either the last entry of the trace, and
  then it passes the filter and is returned, or it does not pass the filter and is followed
  by the pause before the next attempt.
\<close>

theorem extractCode_content_filter:
  assumes "extractCode env w = (r, w')"
  shows "successively content_step (new_events w w') \<and>
         (\<forall>text. last (new_events w w') = (ReadClipboard, Text text) \<longrightarrow>
            looks_like_code text \<and> r = Inr [(''code.tsx'', text)]) \<and>
         (\<forall>files. r = Inr files \<longrightarrow>
            (\<exists>codeContent.
               files = [(''code.tsx'', codeContent)] \<and>
               last (new_events w w') = (ReadClipboard, Text codeContent) \<and>
               length (trim codeContent) > 0 \<and>
               (includes_str codeContent ''import'' \<or> includes_str codeContent ''function'' \<or>
                includes_str codeContent ''const'' \<or> includes_str codeContent ''class'' \<or>
                includes_str codeContent ''export'' \<or> includes_str codeContent ''interface'' \<or>
                includes_str codeContent ''type'')))"
proof -
  from assms have run: "extract_loop env 0 w = (r, w')"
    by (simp add: extractCode_def)
  from extract_loop_props [of env 0 w] run obtain evs where
    "trace w' = trace w @ evs" "successively content_step evs" "evs \<noteq> []"
    "(\<exists>text. r = Inr [(''code.tsx'', text)] \<and>
           last evs = (ReadClipboard, Text text) \<and> looks_like_code text) \<or>
       (r = Inl (Error ''Failed to extract code after multiple attempts'') \<and>
        last evs = (Sleep 2000, Resolves))"
    by (auto simp: maxAttempts_def)
  then show ?thesis
    by (auto simp: looks_like_code_def)
qed

text \<open>A clipboard holding \<^verbatim>\<open>const x\<close> is returned at the first attempt.\<close>

theorem extractCode_content_filter_witness:
  "fst (extractCode (sample_env [] [] ''const x'') (world_with None)) = Inr [(''code.tsx'', ''const x'')] \<and>
   last (new_events (world_with None) (snd (extractCode (sample_env [] [] ''const x'') (world_with None))))
      = (ReadClipboard, Text ''const x'') \<and>
   includes_str ''const x'' ''const''"
proof -
  let ?run = "extractCode (sample_env [] [] ''const x'') (world_with None)"
  have e: "fst ?run = Inr [(''code.tsx'', ''const x'')]"
    by (simp add: eval_defs)
  have i: "includes_str ''const x'' ''const''" by (simp add: eval_defs)
  have "?run = (fst ?run, snd ?run)" by simp
  from extractCode_content_filter [OF this] e i
  show ?thesis by auto
qed

section \<open>Properties of the wait for the generation\<close>

text \<open>
  The loop by induction along its recursion, for any start time that is not in the future.
  The number of polls is bounded by the time left: each round that rejects takes 5000 ms
  or more.
\<close>

declare wait_loop.simps [simp del]

lemma wait_loop_props:
  "start \<le> now w \<Longrightarrow>
   \<exists>evs. trace (snd (wait_loop env start w)) = trace w @ evs \<and>
      successively poll_step evs \<and>
      (evs = [] \<or> fst (hd evs) = poll) \<and>
      (now w - start < MAX_GENERATION_TIME \<longrightarrow> evs \<noteq> []) \<and>
      5000 * polls_made evs \<le> (start + MAX_GENERATION_TIME - now w) + 4999 \<and>
      ((fst (wait_loop env start w) = Inr True \<and> evs \<noteq> [] \<and> last evs = (poll, Resolves) \<and>
        now (snd (wait_loop env start w))
          - duration env (length (trace (snd (wait_loop env start w))) - 1) - start
          < MAX_GENERATION_TIME) \<or>
       (fst (wait_loop env start w) = Inl (Error ''Generation timed out'') \<and>
        (poll, Resolves) \<notin> set evs \<and>
        (evs = [] \<or> last evs = (Sleep 5000, Resolves)) \<and>
        start + MAX_GENERATION_TIME \<le> now (snd (wait_loop env start w))))"
proof (induction env start w rule: wait_loop.induct)
  case (1 env startTime w)
  show ?case
  proof (cases "now w - startTime < MAX_GENERATION_TIME")
    case False
    with "1.prems" have "startTime + MAX_GENERATION_TIME \<le> now w" by simp
    with False show ?thesis
      by (intro exI[of _ "[]"]) (simp add: polls_made_def wait_loop.simps [of env startTime w])
  next
    case True
    obtain r w1 where p: "perform env (WaitFor retry_marker 5000) w = (r, w1)"
      by (cases "perform env (WaitFor retry_marker 5000) w")
    show ?thesis
    proof (cases r)
      case (Inr u)
      with p have "trace w1 = trace w @ [(poll, Resolves)]" "now w1 = now w + duration env (length (trace w))"
        by (auto simp: perform_def Let_def poll_def split: if_splits)
      moreover have "wait_loop env startTime w = (Inr True, w1)"
        using True p Inr by (simp add: wait_loop.simps [of env startTime w])
      ultimately show ?thesis using True
        by (intro exI[of _ "[(poll, Resolves)]"]) (simp add: polls_made_def MAX_GENERATION_TIME_def)
    next
      case (Inl e)
      with p have t1: "trace w1 = trace w @ [(poll, Rejects)]" and n1: "now w \<le> now w1"
        by (auto simp: perform_def Let_def poll_def split: if_splits)
      obtain u w2 where s: "sleep env 5000 w1 = (u, w2)" by (cases "sleep env 5000 w1")
      then have t2: "trace w2 = trace w1 @ [(Sleep 5000, Resolves)]" and n2: "now w1 + 5000 \<le> now w2"
        by (auto simp: sleep_def Let_def)
      have st: "startTime \<le> now w2" using "1.prems" n1 n2 by simp
      have unf: "wait_loop env startTime w = wait_loop env startTime w2"
        using True p Inl s by (simp add: wait_loop.simps [of env startTime w])
      from "1.IH" [OF True p [symmetric] Inl s [symmetric] st]
      obtain evs where ih:
        "trace (snd (wait_loop env startTime w2)) = trace w2 @ evs"
        "successively poll_step evs"
        "evs = [] \<or> fst (hd evs) = poll"
        "5000 * polls_made evs \<le> (startTime + MAX_GENERATION_TIME - now w2) + 4999"
        "(fst (wait_loop env startTime w2) = Inr True \<and> evs \<noteq> [] \<and> last evs = (poll, Resolves) \<and>
          now (snd (wait_loop env startTime w2))
            - duration env (length (trace (snd (wait_loop env startTime w2))) - 1) - startTime
            < MAX_GENERATION_TIME) \<or>
         (fst (wait_loop env startTime w2) = Inl (Error ''Generation timed out'') \<and>
          (poll, Resolves) \<notin> set evs \<and>
          (evs = [] \<or> last evs = (Sleep 5000, Resolves)) \<and>
          startTime + MAX_GENERATION_TIME \<le> now (snd (wait_loop env startTime w2)))"
        by blast
      let ?evs = "(poll, Rejects) # (Sleep 5000, Resolves) # evs"
      have a: "trace (snd (wait_loop env startTime w)) = trace w @ ?evs"
        using unf ih(1) t1 t2 by simp
      have b: "successively poll_step ?evs"
        using ih(2,3) by (cases evs) (auto simp: successively_Cons poll_step_def)
      have c: "5000 * polls_made ?evs \<le> (startTime + MAX_GENERATION_TIME - now w) + 4999"
      proof -
        have "polls_made ?evs = Suc (polls_made evs)"
          by (simp add: polls_made_def poll_def)
        moreover have "5000 + 5000 * polls_made evs
                         \<le> (startTime + MAX_GENERATION_TIME - now w) + 4999"
        proof (cases "startTime + MAX_GENERATION_TIME \<le> now w2")
          case True
          with ih(4) have "polls_made evs = 0" by simp
          with \<open>now w - startTime < MAX_GENERATION_TIME\<close> show ?thesis by simp
        next
          case False
          with ih(4) n1 n2 show ?thesis by simp
        qed
        ultimately show ?thesis by simp
      qed
      have d: "(fst (wait_loop env startTime w) = Inr True \<and> ?evs \<noteq> [] \<and> last ?evs = (poll, Resolves) \<and>
          now (snd (wait_loop env startTime w))
            - duration env (length (trace (snd (wait_loop env startTime w))) - 1) - startTime
            < MAX_GENERATION_TIME) \<or>
         (fst (wait_loop env startTime w) = Inl (Error ''Generation timed out'') \<and>
          (poll, Resolves) \<notin> set ?evs \<and>
          (?evs = [] \<or> last ?evs = (Sleep 5000, Resolves)) \<and>
          startTime + MAX_GENERATION_TIME \<le> now (snd (wait_loop env startTime w)))"
        using ih(5) unfolding unf by (auto simp: poll_def)
      from a b c d show ?thesis
        by (intro exI[of _ ?evs]) (simp add: poll_def)
    qed
  qed
qed

text \<open>
  C3. \<open>waitForGeneration\<close> polls for the marker under an overall timeout. It is a total
  function: every round that does not find the marker pauses for at least 5000 ms, so the
  time left before the deadline decreases. Its calls are polls for the marker, each of
  which, when it rejects, is followed by a pause of 5000 ms and the next poll; there are
  at most 36 polls. It has two outcomes. Either the last poll resolved, nothing was
  called after it and the result is \<open>true\<close>; that poll was begun less than
  \<open>MAX_GENERATION_TIME\<close> after the start. Or no poll resolved, at least
  \<open>MAX_GENERATION_TIME\<close> has elapsed since the start, and it throws
  \<^verbatim>\<open>Generation timed out\<close>. The deadline is tested at the head of each round.
\<close>

theorem waitForGeneration_timeout:
  assumes "waitForGeneration env w = (r, w')"
  shows "new_events w w' \<noteq> [] \<and> fst (hd (new_events w w')) = poll \<and>
         successively poll_step (new_events w w') \<and>
         polls_made (new_events w w') \<le> 36 \<and>
         ((r = Inr True \<and> last (new_events w w') = (poll, Resolves) \<and>
           now w' - duration env (length (trace w') - 1) - now w < 180000) \<or>
          (r = Inl (Error ''Generation timed out'') \<and>
           (poll, Resolves) \<notin> set (new_events w w') \<and>
           last (new_events w w') = (Sleep 5000, Resolves) \<and>
           now w + 180000 \<le> now w'))"
proof -
  from assms have run: "wait_loop env (now w) w = (r, w')"
    by (simp add: waitForGeneration_def)
  have "now w \<le> now w" by simp
  from wait_loop_props [OF this, of env] run obtain evs where e:
    "trace w' = trace w @ evs"
    "successively poll_step evs" "evs \<noteq> []" "fst (hd evs) = poll"
    "5000 * polls_made evs \<le> MAX_GENERATION_TIME + 4999"
    "(r = Inr True \<and> last evs = (poll, Resolves) \<and>
        now w' - duration env (length (trace w') - 1) - now w < MAX_GENERATION_TIME) \<or>
     (r = Inl (Error ''Generation timed out'') \<and>
        (poll, Resolves) \<notin> set evs \<and> last evs = (Sleep 5000, Resolves) \<and>
        now w + MAX_GENERATION_TIME \<le> now w')"
    by (auto simp: MAX_GENERATION_TIME_def)
  from e(5) have "polls_made evs \<le> 36" by (simp add: MAX_GENERATION_TIME_def)
  with e show ?thesis
    by (simp add: MAX_GENERATION_TIME_def)
qed

lemmas wait_eval = waitForGeneration_def wait_loop.simps perform_def sleep_def Let_def
  MAX_GENERATION_TIME_def quiet_env_def world_with_def new_events_def

text \<open>A marker that is there at the first poll, and a marker that never appears.\<close>

theorem waitForGeneration_timeout_witness:
  "fst (waitForGeneration quiet_env (world_with None)) = Inr True \<and>
   new_events (world_with None) (snd (waitForGeneration quiet_env (world_with None)))
     = [(poll, Resolves)] \<and>
   fst (waitForGeneration (quiet_env\<lparr>fails := \<lambda>k. True\<rparr>) (world_with None))
     = Inl (Error ''Generation timed out'') \<and>
   180000 \<le> now (snd (waitForGeneration (quiet_env\<lparr>fails := \<lambda>k. True\<rparr>) (world_with None))) \<and>
   polls_made (new_events (world_with None)
      (snd (waitForGeneration (quiet_env\<lparr>fails := \<lambda>k. True\<rparr>) (world_with None)))) \<le> 36"
proof -
  let ?found = "waitForGeneration quiet_env (world_with None)"
  let ?never = "waitForGeneration (quiet_env\<lparr>fails := \<lambda>k. True\<rparr>) (world_with None)"
  have a: "fst ?found = Inr True"
    by (simp add: wait_eval)
  have b: "new_events (world_with None) (snd ?found) = [(poll, Resolves)]"
    by (simp add: wait_eval poll_def)
  have c: "fst ?never = Inl (Error ''Generation timed out'')"
    by (simp add: wait_eval)
  have d: "now (world_with None) = 0" by (simp add: world_with_def)
  have "?never = (fst ?never, snd ?never)" by simp
  from waitForGeneration_timeout [OF this] a b c d
  show ?thesis by simp
qed

section \<open>Properties of the login flow\<close>

lemmas login_defs = checkAndLogin_def observe_def contextCookies_def saveCookies_def writeFile_def
  await_def try_catch_def perform_def request_def sleep_def ret_def throw_def Let_def
  new_events_def submits_credentials_def writes_file_def


lemma mentions_login_samples: "mentions_login sign_in_button" "\<not> mentions_login []"
  by code_simp+

lemmas login_eval = login_defs sample_env_def sample_js_def sample_credentials_def no_credentials_def
  world_with_def truthy_def mentions_login_samples



lemma checkAndLogin_without_credentials:
  assumes "\<not> (truthy (GITHUB_EMAIL penv) \<and> truthy (GITHUB_PASSWORD penv))"
  shows "checkAndLogin js env penv =
     await (observe env login_instruction) (\<lambda>actions.
       if mentions_login actions then
         await (perform env (Act ''click the sign in button'' [])) (\<lambda>_.
         await (perform env (Act ''click sign in with github'' [])) (\<lambda>_. ret False))
       else ret False)"
  by (simp add: checkAndLogin_def assms)

text \<open>
  C10. Missing credentials are silently not an error. When the page shows login elements
  and \<^verbatim>\<open>GITHUB_EMAIL\<close> or \<^verbatim>\<open>GITHUB_PASSWORD\<close> is unset, \<open>checkAndLogin\<close> submits no
  credentials and writes nothing to disk. When the two clicks on the sign-in buttons go
  through, these three calls are all it makes and it returns \<open>false\<close>. It raises no error
  of its own: the only errors are the rejections of those two clicks, which propagate.
\<close>

theorem checkAndLogin_missing_credentials:
  assumes "checkAndLogin js env penv w = (r, w')"
      and "hd (new_events w w') = (Observe login_instruction, Actions actions)"
      and "mentions_login actions"
      and "GITHUB_EMAIL penv = None \<or> GITHUB_PASSWORD penv = None"
  shows "\<not> list_ex submits_credentials (new_events w w') \<and>
         \<not> list_ex writes_file (new_events w w') \<and> disk w' = disk w \<and>
         ((r = Inr False \<and>
           new_events w w' = [(Observe login_instruction, Actions actions),
                              (Act ''click the sign in button'' [], Resolves),
                              (Act ''click sign in with github'' [], Resolves)]) \<or>
          (r = Inl (Rejected (Act ''click the sign in button'' [])) \<and>
           new_events w w' = [(Observe login_instruction, Actions actions),
                              (Act ''click the sign in button'' [], Rejects)]) \<or>
          (r = Inl (Rejected (Act ''click sign in with github'' [])) \<and>
           new_events w w' = [(Observe login_instruction, Actions actions),
                              (Act ''click the sign in button'' [], Resolves),
                              (Act ''click sign in with github'' [], Rejects)]))"
proof -
  from assms(4) have "\<not> (truthy (GITHUB_EMAIL penv) \<and> truthy (GITHUB_PASSWORD penv))"
    by (auto simp: truthy_def)
  from assms(1-3) [unfolded checkAndLogin_without_credentials [OF this]] show ?thesis
    by (auto simp: observe_def await_def perform_def request_def ret_def Let_def new_events_def
          submits_credentials_def writes_file_def split: if_splits)
qed

text \<open>A page with a sign-in button and an environment without credentials.\<close>

theorem checkAndLogin_missing_credentials_witness:
  "fst (checkAndLogin sample_js (sample_env [] [0] []) no_credentials (world_with None)) = Inr False \<and>
   new_events (world_with None)
      (snd (checkAndLogin sample_js (sample_env [] [0] []) no_credentials (world_with None)))
     = [(Observe login_instruction, Actions sign_in_button),
        (Act ''click the sign in button'' [], Resolves),
        (Act ''click sign in with github'' [], Resolves)] \<and>
   disk (snd (checkAndLogin sample_js (sample_env [] [0] []) no_credentials (world_with None)))
     = disk (world_with None)"
proof -
  let ?w = "world_with None"
  let ?run = "checkAndLogin sample_js (sample_env [] [0] []) no_credentials ?w"
  have h: "hd (new_events ?w (snd ?run)) = (Observe login_instruction, Actions sign_in_button)"
    by (simp add: login_eval)
  have c: "GITHUB_EMAIL no_credentials = None \<or> GITHUB_PASSWORD no_credentials = None"
    by (simp add: no_credentials_def)
  have ok: "fst ?run \<noteq> Inl (Rejected (Act ''click the sign in button'' []))"
       "fst ?run \<noteq> Inl (Rejected (Act ''click sign in with github'' []))"
    by (simp_all add: login_eval)
  have "?run = (fst ?run, snd ?run)" by simp
  note R = checkAndLogin_missing_credentials [OF this h mentions_login_samples(1) c]
  from R ok show ?thesis by blast
qed

section \<open>Properties of the main function\<close>

text \<open>
  \<open>main\<close> runs both loops, so its trace is not computed but bounded: the rules below give,
  for each construct of the model and each function of the script, the set of calls it
  can make.
\<close>

lemma calls_only_mono: "calls_only S m \<Longrightarrow> S \<subseteq> T \<Longrightarrow> calls_only T m"
  unfolding calls_only_def by (meson order_trans)

lemma calls_onlyD:
  assumes "calls_only S m"
  obtains evs where "trace (snd (m w)) = trace w @ evs" "fst ` set evs \<subseteq> S"
  using assms unfolding calls_only_def by (elim allE [of _ w] exE conjE)

lemma calls_onlyI:
  assumes "\<And>w. \<exists>evs. trace (snd (m w)) = trace w @ evs \<and> fst ` set evs \<subseteq> S"
  shows "calls_only S m"
  using assms unfolding calls_only_def by simp

lemma calls_only_ret: "calls_only S (ret x)"
  by (simp add: calls_only_def ret_def)

lemma calls_only_throw: "calls_only S (throw e)"
  by (simp add: calls_only_def throw_def)

lemma calls_only_lift: "calls_only S (lift r)"
  by (simp add: calls_only_def lift_def)

lemma calls_only_await:
  assumes "calls_only S m" "\<And>x. calls_only S (f x)"
  shows "calls_only S (await m f)"
proof (rule calls_onlyI)
  fix w
  obtain r w1 where m: "m w = (r, w1)" by (cases "m w")
  from calls_onlyD [OF assms(1), of w] m obtain evs1 where
    e1: "trace w1 = trace w @ evs1" "fst ` set evs1 \<subseteq> S"
    by auto
  show "\<exists>evs. trace (snd (await m f w)) = trace w @ evs \<and> fst ` set evs \<subseteq> S"
  proof (cases r)
    case (Inl e)
    with m e1 show ?thesis by (simp add: await_def)
  next
    case (Inr x)
    from calls_onlyD [OF assms(2), of x w1] obtain evs2 where
      "trace (snd (f x w1)) = trace w1 @ evs2" "fst ` set evs2 \<subseteq> S"
      by auto
    with m e1 Inr show ?thesis
      by (intro exI[of _ "evs1 @ evs2"]) (simp add: await_def image_Un)
  qed
qed

lemma calls_only_try_catch:
  assumes "calls_only S m" "\<And>e. calls_only S (h e)"
  shows "calls_only S (try_catch m h)"
proof (rule calls_onlyI)
  fix w
  obtain r w1 where m: "m w = (r, w1)" by (cases "m w")
  from calls_onlyD [OF assms(1), of w] m obtain evs1 where
    e1: "trace w1 = trace w @ evs1" "fst ` set evs1 \<subseteq> S"
    by auto
  show "\<exists>evs. trace (snd (try_catch m h w)) = trace w @ evs \<and> fst ` set evs \<subseteq> S"
  proof (cases r)
    case (Inr x)
    with m e1 show ?thesis by (simp add: try_catch_def)
  next
    case (Inl e)
    from calls_onlyD [OF assms(2), of e w1] obtain evs2 where
      "trace (snd (h e w1)) = trace w1 @ evs2" "fst ` set evs2 \<subseteq> S"
      by auto
    with m e1 Inl show ?thesis
      by (intro exI[of _ "evs1 @ evs2"]) (simp add: try_catch_def image_Un)
  qed
qed

lemma calls_only_if:
  "calls_only S m1 \<Longrightarrow> calls_only S m2 \<Longrightarrow> calls_only S (if b then m1 else m2)"
  by simp

lemma calls_only_perform: "c \<in> S \<Longrightarrow> calls_only S (perform env c)"
  by (simp add: calls_only_def perform_def Let_def)

lemma calls_only_request: "c \<in> S \<Longrightarrow> calls_only S (request env c answer shown)"
  by (simp add: calls_only_def request_def Let_def)

lemma calls_only_sleep: "Sleep ms \<in> S \<Longrightarrow> calls_only S (sleep env ms)"
  by (simp add: calls_only_def sleep_def Let_def)

lemma calls_only_readFile: "ReadFile path \<in> S \<Longrightarrow> calls_only S (readFile env path)"
  by (simp add: calls_only_def readFile_def Let_def)

lemma calls_only_writeFile:
  "WriteFile path content \<in> S \<Longrightarrow> calls_only S (writeFile env path content)"
  by (simp add: calls_only_def writeFile_def Let_def)

lemmas calls_only_intros = calls_only_ret calls_only_throw calls_only_lift calls_only_await
  calls_only_try_catch calls_only_if calls_only_perform calls_only_request calls_only_sleep
  calls_only_readFile calls_only_writeFile

lemma calls_only_loadCookies: "ReadFile COOKIES_PATH \<in> S \<Longrightarrow> calls_only S (loadCookies js env)"
  unfolding loadCookies_def
  by (intro calls_only_intros) (simp_all add: calls_only_intros split: option.splits)

lemma calls_only_saveCookies:
  "WriteFile COOKIES_PATH (JSON_stringify js cookies) \<in> S \<Longrightarrow> calls_only S (saveCookies js env cookies)"
  unfolding saveCookies_def by (intro calls_only_intros)

lemma calls_only_checkAndLogin: "calls_only login_calls (checkAndLogin js env penv)"
  unfolding checkAndLogin_def observe_def contextCookies_def Let_def
  by (intro calls_only_intros calls_only_saveCookies allI) (simp_all add: login_calls_def)

lemma calls_only_wait_loop_aux:
  "\<exists>evs. trace (snd (wait_loop env start w)) = trace w @ evs \<and> fst ` set evs \<subseteq> wait_calls"
proof (induction env start w rule: wait_loop.induct)
  case (1 env startTime w)
  show ?case
  proof (cases "now w - startTime < MAX_GENERATION_TIME")
    case False
    then show ?thesis by (simp add: wait_loop.simps [of env startTime w])
  next
    case True
    obtain r w1 where p: "perform env (WaitFor retry_marker 5000) w = (r, w1)"
      by (cases "perform env (WaitFor retry_marker 5000) w")
    then have t1: "\<exists>o1. trace w1 = trace w @ [(poll, o1)]"
      by (auto simp: perform_def Let_def poll_def)
    show ?thesis
    proof (cases r)
      case (Inr u)
      with True p t1 show ?thesis
        by (auto simp: wait_loop.simps [of env startTime w] wait_calls_def)
    next
      case (Inl e)
      obtain u w2 where s: "sleep env 5000 w1 = (u, w2)" by (cases "sleep env 5000 w1")
      then have t2: "trace w2 = trace w1 @ [(Sleep 5000, Resolves)]"
        by (auto simp: sleep_def Let_def)
      from "1.IH" [OF True p [symmetric] Inl s [symmetric]] obtain evs where
        "trace (snd (wait_loop env startTime w2)) = trace w2 @ evs" "fst ` set evs \<subseteq> wait_calls"
        by blast
      with True p Inl s t1 t2 show ?thesis
        by (auto simp: wait_loop.simps [of env startTime w] wait_calls_def)
    qed
  qed
qed

lemma calls_only_waitForGeneration: "calls_only wait_calls (waitForGeneration env)"
  by (rule calls_onlyI) (simp add: waitForGeneration_def calls_only_wait_loop_aux)

lemma calls_only_attempt:
  "calls_only extract_calls (try_catch (extract_attempt env) (\<lambda>error. ret None))"
  unfolding extract_attempt_def click_code_tab_def readClipboard_def
  by (intro calls_only_intros allI) (simp_all add: extract_calls_def)

lemma calls_only_extract_loop_aux:
  "\<exists>evs. trace (snd (extract_loop env n w)) = trace w @ evs \<and> fst ` set evs \<subseteq> extract_calls"
proof (induction env n w rule: extract_loop.induct)
  case (1 env attempts w)
  show ?case
  proof (cases "attempts < maxAttempts")
    case False
    then show ?thesis by (simp add: extract_loop.simps [of env attempts w])
  next
    case True
    obtain r w1 where a: "try_catch (extract_attempt env) (\<lambda>error. ret None) w = (r, w1)"
      by (cases "try_catch (extract_attempt env) (\<lambda>error. ret None) w")
    from calls_onlyD [OF calls_only_attempt, of env w] a obtain att where
      t1: "trace w1 = trace w @ att" "fst ` set att \<subseteq> extract_calls"
      by auto
    obtain u w2 where s: "sleep env 2000 w1 = (u, w2)" by (cases "sleep env 2000 w1")
    then have t2: "trace w2 = trace w1 @ [(Sleep 2000, Resolves)]"
      by (auto simp: sleep_def Let_def)
    show ?thesis
    proof (cases r)
      case (Inl e)
      from "1.IH"(1) [OF True a [symmetric] Inl s [symmetric]] obtain evs where
        "trace (snd (extract_loop env (attempts + 1) w2)) = trace w2 @ evs"
        "fst ` set evs \<subseteq> extract_calls"
        by blast
      with True a Inl s t1 t2 show ?thesis
        by (auto simp: extract_loop.simps [of env attempts w] extract_calls_def)
    next
      case (Inr res)
      show ?thesis
      proof (cases res)
        case (Some files)
        with True a Inr t1 show ?thesis
          by (auto simp: extract_loop.simps [of env attempts w])
      next
        case None
        from "1.IH"(2) [OF True a [symmetric] Inr None s [symmetric]] obtain evs where
          "trace (snd (extract_loop env (attempts + 1) w2)) = trace w2 @ evs"
          "fst ` set evs \<subseteq> extract_calls"
          by blast
        with True a Inr None s t1 t2 show ?thesis
          by (auto simp: extract_loop.simps [of env attempts w] extract_calls_def)
      qed
    qed
  qed
qed

lemma calls_only_extractCode: "calls_only extract_calls (extractCode env)"
  by (rule calls_onlyI) (simp add: extractCode_def calls_only_extract_loop_aux)

lemma calls_only_submit_and_extract:
  "calls_only (submit_calls flowerType) (submit_and_extract js env flowerType)"
  unfolding submit_and_extract_def contextCookies_def Let_def
  by (intro calls_only_intros calls_only_saveCookies allI
        calls_only_mono [OF calls_only_waitForGeneration]
        calls_only_mono [OF calls_only_extractCode])
     (auto simp: submit_calls_def)

text \<open>A handler that rethrows changes nothing.\<close>

lemma try_catch_rethrow: "try_catch m (\<lambda>error. throw error) = m"
  by (rule ext) (auto simp: try_catch_def throw_def split: prod.splits sum.splits)

lemma always_calls_perform: "always_calls c (perform env c)"
  by (simp add: always_calls_def perform_def Let_def)

lemma always_calls_request: "always_calls c (request env c answer shown)"
  by (simp add: always_calls_def request_def Let_def)

lemma always_calls_await:
  assumes "always_calls c m" "\<And>x. calls_only S (f x)"
  shows "always_calls c (await m f)"
  unfolding always_calls_def
proof
  fix w
  obtain r w1 where m: "m w = (r, w1)" by (cases "m w")
  from assms(1) m have c: "c \<in> fst ` set (new_events w w1)"
    unfolding always_calls_def by (metis snd_conv)
  show "c \<in> fst ` set (new_events w (snd (await m f w)))"
  proof (cases r)
    case (Inl e)
    with m c show ?thesis by (simp add: await_def)
  next
    case (Inr x)
    from calls_onlyD [OF assms(2), of x w1] obtain evs2 where
      "trace (snd (f x w1)) = trace w1 @ evs2" "fst ` set evs2 \<subseteq> S"
      by auto
    with m c Inr show ?thesis
      by (auto simp: await_def new_events_def)
  qed
qed

lemma always_calls_checkAndLogin:
  "always_calls (Observe login_instruction) (checkAndLogin js env penv)"
  unfolding checkAndLogin_def observe_def contextCookies_def Let_def
  apply (rule always_calls_await [where S = login_calls])
   apply (rule always_calls_request)
  apply (intro calls_only_intros calls_only_saveCookies allI)
           apply (simp_all add: login_calls_def)
  done

lemma submit_calls_prompt: "submit_calls flowerType \<subseteq> prompt_calls flowerType"
  by (auto simp: submit_calls_def prompt_calls_def wait_calls_def extract_calls_def poll_def
        text_click_def role_click_def act_click_def prompt_action_def)

lemma login_calls_prompt: "login_calls \<subseteq> prompt_calls flowerType"
  by (auto simp: login_calls_def prompt_calls_def prompt_action_def)

lemma calls_only_main:
  "calls_only (prompt_calls flowerType) (main js env penv flowerType)"
  unfolding main_def
  by (intro calls_only_intros calls_only_loadCookies allI
        calls_only_mono [OF calls_only_checkAndLogin login_calls_prompt]
        calls_only_mono [OF calls_only_submit_and_extract submit_calls_prompt])
     (simp_all add: prompt_calls_def)

text \<open>Calls that have been made and have resolved whenever a program returns a value.\<close>

lemma on_success_perform: "on_success_calls c (perform env c)"
  by (auto simp: on_success_calls_def perform_def Let_def split: if_splits)

lemma on_success_await_first:
  assumes "on_success_calls c m" "\<And>x. calls_only S (f x)"
  shows "on_success_calls c (await m f)"
  unfolding on_success_calls_def
proof (intro allI impI)
  fix w y w'
  assume a: "await m f w = (Inr y, w')"
  obtain r w1 where m: "m w = (r, w1)" by (cases "m w")
  with a obtain x where x: "r = Inr x" "f x w1 = (Inr y, w')"
    by (cases r) (auto simp: await_def)
  from assms(1) m x(1) have c: "(c, Resolves) \<in> set (new_events w w1)"
    unfolding on_success_calls_def by simp
  from calls_onlyD [OF assms(2), of x w1] x(2) obtain evs2 where
    "trace w' = trace w1 @ evs2" "fst ` set evs2 \<subseteq> S"
    by auto
  with c show "(c, Resolves) \<in> set (new_events w w')"
    by (auto simp: new_events_def)
qed

lemma on_success_await_second:
  assumes "calls_only S m" "\<And>x. on_success_calls c (f x)"
  shows "on_success_calls c (await m f)"
  unfolding on_success_calls_def
proof (intro allI impI)
  fix w y w'
  assume a: "await m f w = (Inr y, w')"
  obtain r w1 where m: "m w = (r, w1)" by (cases "m w")
  with a obtain x where x: "r = Inr x" "f x w1 = (Inr y, w')"
    by (cases r) (auto simp: await_def)
  from calls_onlyD [OF assms(1), of w] m obtain evs1 where
    e1: "trace w1 = trace w @ evs1" "fst ` set evs1 \<subseteq> S"
    by auto
  from assms(2) [of x] x(2) have c: "(c, Resolves) \<in> set (new_events w1 w')"
    unfolding on_success_calls_def by simp
  have "set (drop (length (trace w) + length evs1) (trace w'))
          \<subseteq> set (drop (length (trace w)) (trace w'))"
    by (metis add.commute drop_drop set_drop_subset)
  with c e1 show "(c, Resolves) \<in> set (new_events w w')"
    by (auto simp: new_events_def)
qed

lemmas calls_only_any = calls_only_intros calls_only_loadCookies calls_only_saveCookies
  calls_only_mono [OF calls_only_checkAndLogin subset_UNIV]
  calls_only_mono [OF calls_only_waitForGeneration subset_UNIV]
  calls_only_mono [OF calls_only_extractCode subset_UNIV]
  calls_only_mono [OF calls_only_submit_and_extract subset_UNIV]

lemma on_success_submit_and_extract:
  "on_success_calls (Act prompt_action [(''prompt'', prompt_template flowerType)])
     (submit_and_extract js env flowerType)"
  unfolding submit_and_extract_def Let_def contextCookies_def
  apply (rule on_success_await_first [where S = UNIV])
   apply (rule on_success_perform)
  apply (intro calls_only_any allI UNIV_I)
  done

lemma on_success_main:
  "on_success_calls (Act prompt_action [(''prompt'', prompt_template flowerType)])
     (main js env penv flowerType)"
  unfolding main_def try_catch_rethrow
  apply (rule on_success_await_second [where S = UNIV], (intro calls_only_any allI UNIV_I)[1])+
  apply (rule on_success_submit_and_extract)
  done

text \<open>
  C8. The prompt is themed by the command-line argument. Whenever \<open>main\<close> enters a prompt
  into the page, the prompt is the template with \<open>flowerType\<close> filled in; when \<open>main\<close>
  returns the files, it has entered that prompt; and the prompt contains \<open>flowerType\<close>.
\<close>

theorem main_submits_themed_prompt:
  assumes "main js env penv flowerType w = (r, w')"
  shows
  "(\<forall>variables outcome.
       (Act ''enter %prompt% into the prompt textarea'' variables, outcome) \<in> set (new_events w w')
       \<longrightarrow> variables = [(''prompt'', ''Create a beautiful '' @ flowerType @
            '' themed Valentine's day card with a romantic message. Make sure that it is only a single file.'')]) \<and>
   (\<forall>files. r = Inr files \<longrightarrow>
       (Act ''enter %prompt% into the prompt textarea''
          [(''prompt'', ''Create a beautiful '' @ flowerType @
            '' themed Valentine's day card with a romantic message. Make sure that it is only a single file.'')],
        Resolves) \<in> set (new_events w w')) \<and>
   includes_str (''Create a beautiful '' @ flowerType @
            '' themed Valentine's day card with a romantic message. Make sure that it is only a single file.'')
      flowerType"
proof -
  from calls_onlyD [OF calls_only_main [where flowerType = flowerType and js = js and env = env
        and penv = penv], of w] assms obtain evs where
    e: "trace w' = trace w @ evs" "fst ` set evs \<subseteq> prompt_calls flowerType"
    by auto
  have a: "\<forall>variables outcome.
       (Act prompt_action variables, outcome) \<in> set (new_events w w')
       \<longrightarrow> variables = [(''prompt'', prompt_template flowerType)]"
  proof (intro allI impI)
    fix variables outcome
    assume "(Act prompt_action variables, outcome) \<in> set (new_events w w')"
    with e have "Act prompt_action variables \<in> prompt_calls flowerType"
      by (auto simp: image_subset_iff)
    then show "variables = [(''prompt'', prompt_template flowerType)]"
      by (simp add: prompt_calls_def)
  qed
  have b: "\<forall>files. r = Inr files \<longrightarrow>
       (Act prompt_action [(''prompt'', prompt_template flowerType)], Resolves) \<in> set (new_events w w')"
    using on_success_main [where flowerType = flowerType and js = js and env = env
        and penv = penv] assms
    unfolding on_success_calls_def by blast
  have c: "includes_str (prompt_template flowerType) flowerType"
    unfolding includes_str_def prompt_template_def sublist_def by blast
  from a b c show ?thesis
    unfolding prompt_action_def prompt_template_def by simp
qed

lemma await_Inr: "m w = (Inr x, w1) \<Longrightarrow> await m f w = f x w1"
  by (simp add: await_def)

lemma await_lift: "await (lift (Inr x)) f = f x"
  by (rule ext) (simp add: await_def lift_def)

lemma await_ret: "await (ret x) f = f x"
  by (rule ext) (simp add: await_def ret_def)

lemma always_callsD:
  assumes "always_calls c m" "trace (snd (m w)) = trace w @ evs"
  shows "c \<in> fst ` set evs"
  using assms unfolding always_calls_def by (metis new_events_append)

text \<open>
  C6. The cookie jar is used to skip the login. Suppose the page has loaded and the load of
  the cookie file has returned the array \<open>cookies\<close>, leaving the world \<open>w2\<close>. Then the login
  flow, which starts by observing the page for login elements, is entered if and only if
  \<open>cookies\<close> is empty. When \<open>cookies\<close> is empty nothing is added to the browser context and
  \<open>main\<close> runs \<open>checkAndLogin\<close> from \<open>w2\<close>: all its calls are in the trace of \<open>main\<close>, its
  error is the error of \<open>main\<close>, and when it returns \<open>main\<close> goes on from the world it leaves
  with the prompt. When \<open>cookies\<close> is not empty they are added to the browser context from
  \<open>w2\<close>, a rejection of that call is the error of \<open>main\<close>, otherwise \<open>main\<close> goes on directly
  with the prompt; no sign-in button is clicked and no credentials are submitted.
\<close>

theorem main_login_iff_no_cookies:
  assumes "main js env penv flowerType w = (r, w')"
      and "perform env (Goto ''https://v0.dev'') w = (Inr (), w1)"
      and "loadCookies js env w1 = (Inr (JArr cookies), w2)"
  shows "(Observe login_instruction \<in> fst ` set (new_events w w') \<longleftrightarrow> cookies = []) \<and>
         (cookies \<noteq> [] \<longrightarrow> AddCookies (JArr cookies) \<in> fst ` set (new_events w w')) \<and>
         (cookies = [] \<longrightarrow> (\<forall>c. AddCookies c \<notin> fst ` set (new_events w w'))) \<and>
         (cookies = [] \<longrightarrow>
            (\<exists>r3 w3. checkAndLogin js env penv w2 = (r3, w3) \<and>
               prefix (trace w3) (trace w') \<and>
               (case r3 of
                  Inl e \<Rightarrow> (r, w') = (Inl e, w3)
                | Inr needsLogin \<Rightarrow> (r, w') = submit_and_extract js env flowerType w3))) \<and>
         (cookies \<noteq> [] \<longrightarrow>
            (\<exists>r3 w3. perform env (AddCookies (JArr cookies)) w2 = (r3, w3) \<and>
               (case r3 of
                  Inl e \<Rightarrow> (r, w') = (Inl e, w3)
                | Inr u \<Rightarrow> (r, w') = submit_and_extract js env flowerType w3)) \<and>
            Act ''click the sign in button'' [] \<notin> fst ` set (new_events w w') \<and>
            \<not> list_ex submits_credentials (new_events w w'))"
proof -
  from assms(2) have t1: "trace w1 = trace w @ [(Goto ''https://v0.dev'', Resolves)]"
    by (auto simp: perform_def Let_def split: if_splits)
  have "calls_only {ReadFile COOKIES_PATH} (loadCookies js env)"
    by (rule calls_only_loadCookies) simp
  from calls_onlyD [OF this, of w1] assms(3) obtain ev2 where
    t2: "trace w2 = trace w1 @ ev2" "fst ` set ev2 \<subseteq> {ReadFile COOKIES_PATH}"
    by auto
  show ?thesis
  proof (cases cookies)
    case Nil
    define rest where "rest = await (await (checkAndLogin js env penv) (\<lambda>needsLogin. ret ()))
                                (\<lambda>_. submit_and_extract js env flowerType)"
    have m: "main js env penv flowerType w = rest w2"
      using Nil
      by (simp add: main_def try_catch_rethrow await_Inr [where m = "perform env (Goto ''https://v0.dev'')" and w = w, OF assms(2)]
            await_Inr [where m = "loadCookies js env" and w = w1, OF assms(3)]
            await_lift await_ret rest_def)
    have c: "calls_only (login_calls \<union> submit_calls flowerType) rest"
      unfolding rest_def
      by (intro calls_only_intros
            calls_only_mono [OF calls_only_checkAndLogin]
            calls_only_mono [OF calls_only_submit_and_extract]) auto
    have a: "always_calls (Observe login_instruction) rest"
      unfolding rest_def
      by (intro always_calls_await [where S = UNIV] always_calls_checkAndLogin
            calls_only_any UNIV_I)
    from calls_onlyD [OF c, of w2] obtain evs where
      e: "trace (snd (rest w2)) = trace w2 @ evs"
         "fst ` set evs \<subseteq> login_calls \<union> submit_calls flowerType"
      by auto
    from always_callsD [OF a e(1)] have o: "Observe login_instruction \<in> fst ` set evs" .
    from m assms(1) have "w' = snd (rest w2)" by (metis snd_conv)
    with e(1) t1 t2 have
      n: "new_events w w' = (Goto ''https://v0.dev'', Resolves) # ev2 @ evs"
      by simp
    have "\<forall>c. AddCookies c \<notin> login_calls \<union> submit_calls flowerType"
      by (auto simp: login_calls_def submit_calls_def wait_calls_def extract_calls_def poll_def
            text_click_def role_click_def act_click_def)
    with e(2) t2(2) have "\<forall>c. AddCookies c \<notin> fst ` set (new_events w w')"
      unfolding n by auto
    obtain r3 w3 where cl: "checkAndLogin js env penv w2 = (r3, w3)"
      by (cases "checkAndLogin js env penv w2")
    have eq: "rest w2 = (case r3 of Inl e \<Rightarrow> (Inl e, w3)
                         | Inr needsLogin \<Rightarrow> submit_and_extract js env flowerType w3)"
      using cl by (simp add: rest_def await_def ret_def split: sum.splits)
    have run: "(r, w') = rest w2" using m assms(1) by simp
    have st: "case r3 of Inl e \<Rightarrow> (r, w') = (Inl e, w3)
              | Inr needsLogin \<Rightarrow> (r, w') = submit_and_extract js env flowerType w3"
      using run eq by (simp split: sum.splits)
    have pf: "prefix (trace w3) (trace w')"
    proof (cases r3)
      case (Inl e)
      with st show ?thesis by simp
    next
      case (Inr b)
      from calls_onlyD [OF calls_only_submit_and_extract [where flowerType = flowerType
            and js = js and env = env], of w3]
      obtain evs3 where "trace (snd (submit_and_extract js env flowerType w3)) = trace w3 @ evs3"
        "fst ` set evs3 \<subseteq> submit_calls flowerType"
        by auto
      moreover from st Inr have "(r, w') = submit_and_extract js env flowerType w3"
        by simp
      then have "w' = snd (submit_and_extract js env flowerType w3)"
        by (metis snd_conv)
      ultimately show ?thesis by simp
    qed
    from cl st pf have a3:
      "\<exists>r3 w3. checkAndLogin js env penv w2 = (r3, w3) \<and> prefix (trace w3) (trace w') \<and>
               (case r3 of
                  Inl e \<Rightarrow> (r, w') = (Inl e, w3)
                | Inr needsLogin \<Rightarrow> (r, w') = submit_and_extract js env flowerType w3)"
      by (intro exI conjI)
    from o have a1: "Observe login_instruction \<in> fst ` set (new_events w w')"
      unfolding n by auto
    note a2 = \<open>\<forall>c. AddCookies c \<notin> fst ` set (new_events w w')\<close>
    from Nil a1 a2 a3 show ?thesis
      by (intro conjI impI) simp_all
  next
    case (Cons c cs)
    define rest where "rest = await (perform env (AddCookies (JArr cookies)))
                                (\<lambda>_. submit_and_extract js env flowerType)"
    have m: "main js env penv flowerType w = rest w2"
      using Cons
      by (simp add: main_def try_catch_rethrow await_Inr [where m = "perform env (Goto ''https://v0.dev'')" and w = w, OF assms(2)]
            await_Inr [where m = "loadCookies js env" and w = w1, OF assms(3)]
            await_lift await_ret rest_def)
    have c: "calls_only ({AddCookies (JArr cookies)} \<union> submit_calls flowerType) rest"
      unfolding rest_def
      by (intro calls_only_intros calls_only_mono [OF calls_only_submit_and_extract]) auto
    have a: "always_calls (AddCookies (JArr cookies)) rest"
      unfolding rest_def
      by (intro always_calls_await [where S = UNIV] always_calls_perform calls_only_any UNIV_I)
    from calls_onlyD [OF c, of w2] obtain evs where
      e: "trace (snd (rest w2)) = trace w2 @ evs"
         "fst ` set evs \<subseteq> {AddCookies (JArr cookies)} \<union> submit_calls flowerType"
      by auto
    from always_callsD [OF a e(1)] have o: "AddCookies (JArr cookies) \<in> fst ` set evs" .
    from m assms(1) have "w' = snd (rest w2)" by (metis snd_conv)
    with e(1) t1 t2 have
      n: "new_events w w' = (Goto ''https://v0.dev'', Resolves) # ev2 @ evs"
      by simp
    have "Observe login_instruction \<notin> {AddCookies (JArr cookies)} \<union> submit_calls flowerType"
      by (auto simp: submit_calls_def wait_calls_def extract_calls_def poll_def
            text_click_def role_click_def act_click_def)
    with e(2) t2(2) have b1: "Observe login_instruction \<notin> fst ` set (new_events w w')"
      unfolding n by auto
    from o have b2: "AddCookies (JArr cookies) \<in> fst ` set (new_events w w')"
      unfolding n by auto
    obtain r3 w3 where ad: "perform env (AddCookies (JArr cookies)) w2 = (r3, w3)"
      by (cases "perform env (AddCookies (JArr cookies)) w2")
    have eq: "rest w2 = (case r3 of Inl e \<Rightarrow> (Inl e, w3)
                         | Inr u \<Rightarrow> submit_and_extract js env flowerType w3)"
      using ad by (simp add: rest_def await_def split: sum.splits)
    have run: "(r, w') = rest w2" using m assms(1) by simp
    have st: "case r3 of Inl e \<Rightarrow> (r, w') = (Inl e, w3)
              | Inr u \<Rightarrow> (r, w') = submit_and_extract js env flowerType w3"
      using run eq by (simp split: sum.splits)
    from ad st have b3:
      "\<exists>r3 w3. perform env (AddCookies (JArr cookies)) w2 = (r3, w3) \<and>
               (case r3 of
                  Inl e \<Rightarrow> (r, w') = (Inl e, w3)
                | Inr u \<Rightarrow> (r, w') = submit_and_extract js env flowerType w3)"
      by (intro exI conjI)
    have "Act ''click the sign in button'' [] \<notin> {AddCookies (JArr cookies)} \<union> submit_calls flowerType"
      by (auto simp: submit_calls_def wait_calls_def extract_calls_def poll_def
            text_click_def role_click_def act_click_def prompt_action_def)
    with e(2) t2(2) have b4: "Act ''click the sign in button'' [] \<notin> fst ` set (new_events w w')"
      unfolding n by auto
    have nc: "\<forall>c \<in> {AddCookies (JArr cookies)} \<union> submit_calls flowerType. \<forall>outcome.
            \<not> submits_credentials (c, outcome)"
      by (auto simp: submit_calls_def wait_calls_def extract_calls_def poll_def
            text_click_def role_click_def act_click_def prompt_action_def submits_credentials_def)
    have b5: "\<not> list_ex submits_credentials (new_events w w')"
      unfolding list_ex_iff
    proof
      assume "\<exists>x\<in>set (new_events w w'). submits_credentials x"
      then obtain x where x: "x \<in> set (new_events w w')" "submits_credentials x"
        by (elim bexE)
      from x(2) have g: "fst x \<noteq> Goto ''https://v0.dev''" "fst x \<noteq> ReadFile COOKIES_PATH"
        by (auto simp: submits_credentials_def)
      from x(1) have "fst x \<in> fst ` set (new_events w w')" by (rule imageI)
      with g e(2) t2(2) have "fst x \<in> {AddCookies (JArr cookies)} \<union> submit_calls flowerType"
        unfolding n by auto
      with nc have "\<not> submits_credentials (fst x, snd x)" by blast
      with x(2) show False by simp
    qed
    from Cons b1 b2 b3 b4 b5 show ?thesis
      by (intro conjI impI) simp_all
  qed
qed

subsection \<open>Sample runs of the main function\<close>

lemmas main_eval = main_def submit_and_extract_def loadCookies_def readFile_def lift_def
  prompt_action_def prompt_template_def login_eval wait_eval eval_defs

text \<open>A run with the flower \<^verbatim>\<open>rose\<close> that returns the files.\<close>

theorem main_submits_themed_prompt_witness:
  "fst (main sample_js (sample_env [] [] ''const x'') no_credentials ''rose'' (world_with (Some ''[null]'')))
     = Inr [(''code.tsx'', ''const x'')] \<and>
   (Act ''enter %prompt% into the prompt textarea''
      [(''prompt'', ''Create a beautiful rose themed Valentine's day card with a romantic message. Make sure that it is only a single file.'')],
    Resolves)
     \<in> set (new_events (world_with (Some ''[null]''))
           (snd (main sample_js (sample_env [] [] ''const x'') no_credentials ''rose''
                  (world_with (Some ''[null]'')))))"
proof -
  let ?w = "world_with (Some ''[null]'')"
  let ?run = "main sample_js (sample_env [] [] ''const x'') no_credentials ''rose'' ?w"
  have r: "fst ?run = Inr [(''code.tsx'', ''const x'')]"
    by (simp add: main_eval)
  have "?run = (fst ?run, snd ?run)" by simp
  note T = main_submits_themed_prompt [OF this, THEN conjunct2, THEN conjunct1, THEN spec, THEN mp, OF r]
  from r T show ?thesis by simp
qed

text \<open>A run with a cookie file holding one cookie, and a run without a cookie file.\<close>

theorem main_login_iff_no_cookies_witness:
  "AddCookies (JArr [JNull])
     \<in> fst ` set (new_events (world_with (Some ''[null]''))
           (snd (main sample_js (sample_env [] [] ''const x'') no_credentials ''rose''
                  (world_with (Some ''[null]''))))) \<and>
   Observe login_instruction
     \<notin> fst ` set (new_events (world_with (Some ''[null]''))
           (snd (main sample_js (sample_env [] [] ''const x'') no_credentials ''rose''
                  (world_with (Some ''[null]''))))) \<and>
   Observe login_instruction
     \<in> fst ` set (new_events (world_with None)
           (snd (main sample_js (sample_env [] [] ''const x'') no_credentials ''rose''
                  (world_with None)))) \<and>
   (\<exists>r3 w3.
      checkAndLogin sample_js (sample_env [] [] ''const x'') no_credentials
        (snd (loadCookies sample_js (sample_env [] [] ''const x'')
               (snd (perform (sample_env [] [] ''const x'') (Goto ''https://v0.dev'')
                      (world_with None))))) = (r3, w3) \<and>
      prefix (trace w3)
        (trace (snd (main sample_js (sample_env [] [] ''const x'') no_credentials ''rose''
                      (world_with None)))))"
proof -
  let ?env = "sample_env [] [] ''const x''"
  let ?w = "world_with (Some ''[null]'')"
  let ?loaded = "snd (perform ?env (Goto ''https://v0.dev'') ?w)"
  let ?read = "snd (loadCookies sample_js ?env ?loaded)"
  let ?run = "main sample_js ?env no_credentials ''rose'' ?w"
  let ?v = "world_with None"
  let ?loaded_none = "snd (perform ?env (Goto ''https://v0.dev'') ?v)"
  let ?read_none = "snd (loadCookies sample_js ?env ?loaded_none)"
  let ?run_none = "main sample_js ?env no_credentials ''rose'' ?v"
  have goto_some: "perform ?env (Goto ''https://v0.dev'') ?w = (Inr (), ?loaded)"
    by (simp add: perform_def sample_env_def)
  have load_some: "loadCookies sample_js ?env ?loaded = (Inr (JArr [JNull]), ?read)"
    by (simp add: main_eval)
  have goto_none: "perform ?env (Goto ''https://v0.dev'') ?v = (Inr (), ?loaded_none)"
    by (simp add: perform_def sample_env_def)
  have load_none: "loadCookies sample_js ?env ?loaded_none = (Inr (JArr []), ?read_none)"
    by (simp add: main_eval)
  have "?run = (fst ?run, snd ?run)" by simp
  note A = main_login_iff_no_cookies [OF this goto_some load_some]
  have "?run_none = (fst ?run_none, snd ?run_none)" by simp
  note B = main_login_iff_no_cookies [OF this goto_none load_none]
  note A1 = A [THEN conjunct1]
  note A2 = A [THEN conjunct2, THEN conjunct1]
  note B1 = B [THEN conjunct1]
  note B4 = B [THEN conjunct2, THEN conjunct2, THEN conjunct2, THEN conjunct1, THEN mp, OF refl]
  from B4 have "\<exists>r3 w3. checkAndLogin sample_js ?env no_credentials ?read_none = (r3, w3) \<and>
      prefix (trace w3) (trace (snd ?run_none))"
    by (elim exE conjE) (intro exI conjI)
  with A1 A2 B1 show ?thesis by simp
qed

end
